theory Spec2Isabelle
  imports Main "HOL-Library.Word" "HOL-Library.Signed_Division"
begin

unbundle bit_operations_syntax

section \<open>Machine types\<close>

text \<open>
  Go's \<open>uint\<close> and \<open>uint64\<close> are 64-bit words on the platforms the scheduler runs on:
  addition wraps, and a shift by 64 or more gives 0, which is what \<open>push_bit\<close> does on
  a word. \<open>int\<close> and \<open>time.Duration\<close> are signed 64-bit values, read with \<open>sint\<close>.
\<close>

type_synonym uint = "64 word"
type_synonym uint64 = "64 word"
type_synonym int64 = "64 word"

definition MaxUint64 :: uint64 where
  "MaxUint64 = - 1"

definition starBit :: uint64 where
  "starBit = push_bit 63 1"

section \<open>chain.go\<close>

text \<open>
  A \<open>JobWrapper\<close> is a function from jobs to jobs; a \<open>Chain\<close> holds a slice of them.
  \<open>Then\<close> runs \<open>i\<close> over the indices of the slice and applies the wrapper at index
  \<open>len - i - 1\<close>; the index is always in range.
\<close>

type_synonym 'job JobWrapper = "'job \<Rightarrow> 'job"

record 'job Chain =
  wrappers :: "'job JobWrapper list"

definition NewChain :: "'job JobWrapper list \<Rightarrow> 'job Chain" where
  "NewChain c = \<lparr>wrappers = c\<rparr>"

fun Then_loop :: "'job JobWrapper list \<Rightarrow> nat list \<Rightarrow> 'job \<Rightarrow> 'job" where
  "Then_loop ws [] j = j"
| "Then_loop ws (i # is) j = Then_loop ws is ((ws ! (length ws - i - 1)) j)"

definition Then :: "'job Chain \<Rightarrow> 'job \<Rightarrow> 'job" where
  "Then c j = Then_loop (wrappers c) [0 ..< length (wrappers c)] j"

text \<open>
  The chain of the contract, \<open>d1(d2(...dn(r)))\<close>, written by recursion on the list of
  decorators.
\<close>

primrec decorate :: "'job JobWrapper list \<Rightarrow> 'job \<Rightarrow> 'job" where
  "decorate [] r = r"
| "decorate (d # ds) r = d (decorate ds r)"

section \<open>Strings\<close>

text \<open>
  A Go string is a sequence of bytes, here a \<open>char list\<close>. The functions of package
  \<open>strings\<close> are modelled on ASCII text: white space is the six ASCII white-space
  bytes, \<open>ToLower\<close> lowers the letters A to Z and leaves every other byte alone, and
  the separator of \<open>Split\<close> is a single byte, as it is at both calls.
\<close>

definition HasPrefix :: "string \<Rightarrow> string \<Rightarrow> bool" where
  "HasPrefix s pre = (take (length pre) s = pre)"

fun Index_from :: "int \<Rightarrow> string \<Rightarrow> string \<Rightarrow> int" where
  "Index_from k [] substr = (if substr = [] then k else - 1)"
| "Index_from k (c # cs) substr =
     (if HasPrefix (c # cs) substr then k else Index_from (k + 1) cs substr)"

definition Index :: "string \<Rightarrow> string \<Rightarrow> int" where
  "Index s substr = Index_from 0 s substr"

definition isSpace :: "char \<Rightarrow> bool" where
  "isSpace c = (c \<in> set [CHR 0x09, CHR 0x0A, CHR 0x0B, CHR 0x0C, CHR 0x0D, CHR '' ''])"

definition TrimSpace :: "string \<Rightarrow> string" where
  "TrimSpace s = rev (dropWhile isSpace (rev (dropWhile isSpace s)))"

fun FieldsFunc_loop :: "(char \<Rightarrow> bool) \<Rightarrow> string \<Rightarrow> string \<Rightarrow> string list" where
  "FieldsFunc_loop f cur [] = (if cur = [] then [] else [cur])"
| "FieldsFunc_loop f cur (c # cs) =
     (if f c then (if cur = [] then FieldsFunc_loop f [] cs else cur # FieldsFunc_loop f [] cs)
      else FieldsFunc_loop f (cur @ [c]) cs)"

definition FieldsFunc :: "string \<Rightarrow> (char \<Rightarrow> bool) \<Rightarrow> string list" where
  "FieldsFunc s f = FieldsFunc_loop f [] s"

definition Fields :: "string \<Rightarrow> string list" where
  "Fields s = FieldsFunc s isSpace"

fun Split :: "string \<Rightarrow> char \<Rightarrow> string list" where
  "Split [] sep = [[]]"
| "Split (c # cs) sep =
     (if c = sep then [] # Split cs sep
      else (case Split cs sep of [] \<Rightarrow> [[c]] | x # xs \<Rightarrow> (c # x) # xs))"

definition lower_table :: "(char \<times> char) list" where
  "lower_table = zip ''ABCDEFGHIJKLMNOPQRSTUVWXYZ'' ''abcdefghijklmnopqrstuvwxyz''"

definition ToLower :: "string \<Rightarrow> string" where
  "ToLower s = map (\<lambda>c. case map_of lower_table c of None \<Rightarrow> c | Some d \<Rightarrow> d) s"

text \<open>
  \<open>strconv.Atoi\<close> reads an optional sign and at least one decimal digit, and fails on
  any other byte and on a value outside the 64-bit signed integers.
\<close>

definition digit_table :: "(char \<times> int) list" where
  "digit_table = zip ''0123456789'' [0, 1, 2, 3, 4, 5, 6, 7, 8, 9]"

fun digits_value :: "int \<Rightarrow> string \<Rightarrow> int option" where
  "digits_value acc [] = Some acc"
| "digits_value acc (c # cs) =
     (case map_of digit_table c of None \<Rightarrow> None | Some d \<Rightarrow> digits_value (acc * 10 + d) cs)"

definition in_int64 :: "int \<Rightarrow> bool" where
  "in_int64 n = (- (2 ^ 63) \<le> n \<and> n < 2 ^ 63)"

definition Atoi :: "string \<Rightarrow> int option" where
  "Atoi s =
     (let (neg, ds) = (case s of [] \<Rightarrow> (False, [])
                       | c # cs \<Rightarrow> if c = CHR ''-'' then (True, cs)
                                  else if c = CHR ''+'' then (False, cs) else (False, s))
      in if ds = [] then None
         else case digits_value 0 ds of None \<Rightarrow> None
              | Some n \<Rightarrow> (let v = (if neg then - n else n) in if in_int64 v then Some v else None))"

section \<open>Results of running a function\<close>

text \<open>
  A Go function returns, panics or does not return at all. A function with an error
  result returns a value of a sum type, \<open>Inl\<close> the error.
\<close>

datatype panic = IndexOutOfRange | SliceBoundsOutOfRange | Explicit string

datatype 'a outcome = Returns 'a | Panics panic | Diverges

fun andThen :: "'a outcome \<Rightarrow> ('a \<Rightarrow> 'b outcome) \<Rightarrow> 'b outcome" where
  "andThen (Returns x) f = f x"
| "andThen (Panics p) f = Panics p"
| "andThen Diverges f = Diverges"

text \<open>The slice expression \<open>s[lo:hi]\<close> of a string panics unless \<open>0 \<le> lo \<le> hi \<le> len(s)\<close>.\<close>

definition slice :: "string \<Rightarrow> int \<Rightarrow> int \<Rightarrow> string outcome" where
  "slice s lo hi =
     (if 0 \<le> lo \<and> lo \<le> hi \<and> hi \<le> int (length s)
      then Returns (take (nat hi - nat lo) (drop (nat lo) s))
      else Panics SliceBoundsOutOfRange)"

definition slice_from :: "string \<Rightarrow> int \<Rightarrow> string outcome" where
  "slice_from s lo = slice s lo (int (length s))"

definition index :: "'a list \<Rightarrow> nat \<Rightarrow> 'a outcome" where
  "index xs i = (if i < length xs then Returns (xs ! i) else Panics IndexOutOfRange)"

section \<open>Locations and schedules\<close>

text \<open>
  A \<open>*time.Location\<close> is a table of zone transitions: the offset from UTC (in seconds)
  before the first transition, and the transitions in ascending order, each with the
  Unix time at which it starts and the offset from then on. \<open>time.Local\<close> is one
  particular pointer; the comparison \<open>loc == time.Local\<close> is the test \<open>is_Local\<close>.
\<close>

datatype Location = Local int "(int \<times> int) list" | Loc int "(int \<times> int) list"

definition UTC :: Location where
  "UTC = Loc 0 []"

fun is_Local :: "Location \<Rightarrow> bool" where
  "is_Local (Local off txs) = True"
| "is_Local (Loc off txs) = False"

record SpecSchedule =
  Second :: uint64
  Minute :: uint64
  Hour :: uint64
  Dom :: uint64
  Month :: uint64
  Dow :: uint64
  Location :: Location

record ConstantDelaySchedule =
  Delay :: int64

datatype Schedule = Spec SpecSchedule | ConstantDelay ConstantDelaySchedule

record bounds =
  min_b :: uint
  max_b :: uint
  names :: "(string \<times> uint) list option"

definition seconds :: bounds where
  "seconds = \<lparr>min_b = 0, max_b = 59, names = None\<rparr>"

definition minutes :: bounds where
  "minutes = \<lparr>min_b = 0, max_b = 59, names = None\<rparr>"

definition hours :: bounds where
  "hours = \<lparr>min_b = 0, max_b = 23, names = None\<rparr>"

definition dom :: bounds where
  "dom = \<lparr>min_b = 1, max_b = 31, names = None\<rparr>"

definition months :: bounds where
  "months = \<lparr>min_b = 1, max_b = 12, names = Some
     [(''jan'', 1), (''feb'', 2), (''mar'', 3), (''apr'', 4), (''may'', 5), (''jun'', 6),
      (''jul'', 7), (''aug'', 8), (''sep'', 9), (''oct'', 10), (''nov'', 11), (''dec'', 12)]\<rparr>"

definition dow :: bounds where
  "dow = \<lparr>min_b = 0, max_b = 6, names = Some
     [(''sun'', 0), (''mon'', 1), (''tue'', 2), (''wed'', 3), (''thu'', 4), (''fri'', 5),
      (''sat'', 6)]\<rparr>"

section \<open>The bit sets of the parser\<close>

text \<open>
  \<open>getBits\<close> has a shift-based branch for step 1 and a loop for every other step. The
  loop does not end when the step is 0 and the start is not above the maximum, so it is
  a partial function: not returning is the value \<open>None\<close>.
\<close>

definition getBits_shift :: "uint \<Rightarrow> uint \<Rightarrow> uint64" where
  "getBits_shift mn mx =
     NOT (push_bit (unat (mx + 1)) MaxUint64) AND push_bit (unat mn) MaxUint64"

partial_function (option) getBits_loop :: "uint \<Rightarrow> uint \<Rightarrow> uint \<Rightarrow> uint64 \<Rightarrow> uint64 option" where
  "getBits_loop i mx step bits =
     (if i \<le> mx then getBits_loop (i + step) mx step (bits OR push_bit (unat i) 1)
      else Some bits)"

declare getBits_loop.simps [code]

definition getBits :: "uint \<Rightarrow> uint \<Rightarrow> uint \<Rightarrow> uint64 outcome" where
  "getBits mn mx step =
     (if step = 1 then Returns (getBits_shift mn mx)
      else case getBits_loop mn mx step 0 of None \<Rightarrow> Diverges | Some bits \<Rightarrow> Returns bits)"

definition all_bits :: "bounds \<Rightarrow> uint64 outcome" where
  "all_bits r = andThen (getBits (min_b r) (max_b r) 1) (\<lambda>bits. Returns (bits OR starBit))"



section \<open>The parser\<close>

datatype parse_error =
    EmptySpecString
  | BadLocation string
  | DescriptorsNotAccepted string
  | MultipleOptionals
  | ExpectedExactlyFields int int "string list"
  | ExpectedFieldsBetween int int int "string list"
  | UnknownOptionalField
  | TooManyHyphens string
  | TooManySlashes string
  | BelowMinimum uint uint string
  | AboveMaximum uint uint string
  | BeyondEnd uint uint string
  | StepNotPositive string
  | FailedToParseInt string
  | NegativeNumber int string
  | FailedToParseDuration string
  | UnrecognizedDescriptor string

type_synonym ParseOption = "64 word"

definition Second_opt :: ParseOption where "Second_opt = 1"
definition SecondOptional :: ParseOption where "SecondOptional = 2"
definition Minute_opt :: ParseOption where "Minute_opt = 4"
definition Hour_opt :: ParseOption where "Hour_opt = 8"
definition Dom_opt :: ParseOption where "Dom_opt = 16"
definition Month_opt :: ParseOption where "Month_opt = 32"
definition Dow_opt :: ParseOption where "Dow_opt = 64"
definition DowOptional :: ParseOption where "DowOptional = 128"
definition Descriptor :: ParseOption where "Descriptor = 256"

definition places :: "ParseOption list" where
  "places = [Second_opt, Minute_opt, Hour_opt, Dom_opt, Month_opt, Dow_opt]"

definition defaults :: "string list" where
  "defaults = [''0'', ''0'', ''0'', ''*'', ''*'', ''*'']"

text \<open>\<open>options & flag > 0\<close> on the signed type \<open>ParseOption\<close>.\<close>

definition has_option :: "ParseOption \<Rightarrow> ParseOption \<Rightarrow> bool" where
  "has_option options flag = (0 < sint (options AND flag))"

record Parser =
  options :: ParseOption

definition mustParseInt :: "string \<Rightarrow> parse_error + uint" where
  "mustParseInt expr =
     (case Atoi expr of None \<Rightarrow> Inl (FailedToParseInt expr)
      | Some num \<Rightarrow> if num < 0 then Inl (NegativeNumber num expr) else Inr (word_of_int num))"

definition parseIntOrName :: "string \<Rightarrow> (string \<times> uint) list option \<Rightarrow> parse_error + uint" where
  "parseIntOrName expr nms =
     (case nms of None \<Rightarrow> mustParseInt expr
      | Some m \<Rightarrow> (case map_of m (ToLower expr) of Some namedInt \<Rightarrow> Inr namedInt
                  | None \<Rightarrow> mustParseInt expr))"

text \<open>
  \<open>getRange\<close>, in the order of the source: the start, the end and the wildcard mark from
  the part before the slash; then the step, which for a single number moves the end to
  the maximum and for a step above 1 drops the wildcard mark; then the four checks and
  the bit set.
\<close>

definition range_low_high ::
  "string \<Rightarrow> string list \<Rightarrow> bounds \<Rightarrow> (parse_error + uint \<times> uint \<times> uint64) outcome" where
  "range_low_high expr lowAndHigh r =
     andThen (index lowAndHigh 0) (\<lambda>low.
       if low = ''*'' \<or> low = ''?'' then Returns (Inr (min_b r, max_b r, starBit))
       else case parseIntOrName low (names r) of Inl err \<Rightarrow> Returns (Inl err)
            | Inr start \<Rightarrow>
               if length lowAndHigh = 1 then Returns (Inr (start, start, 0))
               else if length lowAndHigh = 2 then
                 andThen (index lowAndHigh 1) (\<lambda>high.
                   case parseIntOrName high (names r) of Inl err \<Rightarrow> Returns (Inl err)
                   | Inr end \<Rightarrow> Returns (Inr (start, end, 0)))
               else Returns (Inl (TooManyHyphens expr)))"

definition range_step ::
  "string \<Rightarrow> string list \<Rightarrow> bool \<Rightarrow> bounds \<Rightarrow> uint \<Rightarrow> uint64 \<Rightarrow>
   (parse_error + uint \<times> uint \<times> uint64) outcome" where
  "range_step expr rangeAndStep singleDigit r end extra =
     (if length rangeAndStep = 1 then Returns (Inr (1, end, extra))
      else if length rangeAndStep = 2 then
        andThen (index rangeAndStep 1) (\<lambda>s.
          case mustParseInt s of Inl err \<Rightarrow> Returns (Inl err)
          | Inr step \<Rightarrow>
              Returns (Inr (step, if singleDigit then max_b r else end,
                            if step > 1 then 0 else extra)))
      else Returns (Inl (TooManySlashes expr)))"

definition range_check ::
  "string \<Rightarrow> bounds \<Rightarrow> uint \<Rightarrow> uint \<Rightarrow> uint \<Rightarrow> uint64 \<Rightarrow> (parse_error + uint64) outcome" where
  "range_check expr r start end step extra =
     (if start < min_b r then Returns (Inl (BelowMinimum start (min_b r) expr))
      else if end > max_b r then Returns (Inl (AboveMaximum end (max_b r) expr))
      else if start > end then Returns (Inl (BeyondEnd start end expr))
      else if step = 0 then Returns (Inl (StepNotPositive expr))
      else andThen (getBits start end step) (\<lambda>bits. Returns (Inr (bits OR extra))))"

definition getRange :: "string \<Rightarrow> bounds \<Rightarrow> (parse_error + uint64) outcome" where
  "getRange expr r =
     (let rangeAndStep = Split expr CHR ''/'' in
      andThen (index rangeAndStep 0) (\<lambda>rng.
        let lowAndHigh = Split rng CHR ''-'';
            singleDigit = (length lowAndHigh = 1)
        in andThen (range_low_high expr lowAndHigh r) (\<lambda>lh.
             case lh of Inl err \<Rightarrow> Returns (Inl err)
             | Inr (start, end0, extra0) \<Rightarrow>
                 andThen (range_step expr rangeAndStep singleDigit r end0 extra0) (\<lambda>st.
                   case st of Inl err \<Rightarrow> Returns (Inl err)
                   | Inr (step, end, extra) \<Rightarrow> range_check expr r start end step extra))))"

fun getField_loop :: "string list \<Rightarrow> bounds \<Rightarrow> uint64 \<Rightarrow> (parse_error + uint64) outcome" where
  "getField_loop [] r bits = Returns (Inr bits)"
| "getField_loop (expr # ranges) r bits =
     andThen (getRange expr r) (\<lambda>res.
       case res of Inl err \<Rightarrow> Returns (Inl err)
       | Inr b \<Rightarrow> getField_loop ranges r (bits OR b))"

definition getField :: "string \<Rightarrow> bounds \<Rightarrow> (parse_error + uint64) outcome" where
  "getField field r = getField_loop (FieldsFunc field (\<lambda>c. c = CHR '','')) r 0"


subsection \<open>Range expressions\<close>

text \<open>
  The range expressions of the field grammar, \<open>N\<close>, \<open>N-M\<close>, \<open>N/S\<close> and \<open>N-M/S\<close>,
  built from their parts, and the text of an expression before its first hyphen or
  slash.
\<close>

definition range_expr :: "string \<Rightarrow> string option \<Rightarrow> string option \<Rightarrow> string" where
  "range_expr lo hi st =
     lo @ (case hi of None \<Rightarrow> [] | Some h \<Rightarrow> CHR ''-'' # h)
        @ (case st of None \<Rightarrow> [] | Some s \<Rightarrow> CHR ''/'' # s)"

definition low_text :: "string \<Rightarrow> string" where
  "low_text expr = takeWhile (\<lambda>c. c \<noteq> CHR ''-'' \<and> c \<noteq> CHR ''/'') expr"

subsection \<open>Interval schedules\<close>

text \<open>
  A \<open>time.Duration\<close> is a signed 64-bit count of nanoseconds. Go's \<open>%\<close> truncates
  towards zero, which is \<open>smod\<close> on the signed values.
\<close>

definition time_Nanosecond :: int64 where "time_Nanosecond = 1"
definition time_Second :: int64 where "time_Second = 1000000000"
definition time_Minute :: int64 where "time_Minute = 60 * time_Second"
definition time_Hour :: int64 where "time_Hour = 60 * time_Minute"

definition rem64 :: "int64 \<Rightarrow> int64 \<Rightarrow> int64" where
  "rem64 a b = word_of_int (sint a smod sint b)"

definition Every :: "int64 \<Rightarrow> ConstantDelaySchedule" where
  "Every duration0 =
     (let duration = (if sint duration0 < sint time_Second then time_Second else duration0)
      in \<lparr>Delay = duration - rem64 duration time_Second\<rparr>)"

subsection \<open>Field counts and defaults\<close>

fun expand_loop ::
  "ParseOption list \<Rightarrow> nat \<Rightarrow> ParseOption \<Rightarrow> string list \<Rightarrow> nat \<Rightarrow> string list \<Rightarrow>
   string list outcome" where
  "expand_loop [] i opts flds n expandedFields = Returns expandedFields"
| "expand_loop (place # ps) i opts flds n expandedFields =
     (if has_option opts place
      then andThen (index flds n) (\<lambda>f.
             expand_loop ps (i + 1) opts flds (n + 1) (expandedFields[i := f]))
      else expand_loop ps (i + 1) opts flds n expandedFields)"

definition normalizeFields ::
  "string list \<Rightarrow> ParseOption \<Rightarrow> (parse_error + string list) outcome" where
  "normalizeFields flds0 options0 =
     (let (options1, optionals1) =
            (if has_option options0 SecondOptional then (options0 OR Second_opt, 1 :: int)
             else (options0, 0));
          (opts, optionals) =
            (if has_option options1 DowOptional then (options1 OR Dow_opt, optionals1 + 1)
             else (options1, optionals1))
      in if optionals > 1 then Returns (Inl MultipleOptionals)
         else
           let mx = int (length (filter (has_option opts) places));
               mn = mx - optionals;
               count = int (length flds0)
           in if count < mn \<or> count > mx then
                (if mn = mx then Returns (Inl (ExpectedExactlyFields mn count flds0))
                 else Returns (Inl (ExpectedFieldsBetween mn mx count flds0)))
              else
                andThen
                  (if mn < mx \<and> int (length flds0) = mn then
                     (if has_option opts DowOptional then
                        andThen (index defaults 5) (\<lambda>d. Returns (Inr (flds0 @ [d])))
                      else if has_option opts SecondOptional then
                        andThen (index defaults 0) (\<lambda>d. Returns (Inr (d # flds0)))
                      else Returns (Inl UnknownOptionalField))
                   else Returns (Inr flds0))
                  (\<lambda>filled. case filled of Inl err \<Rightarrow> Returns (Inl err)
                     | Inr flds \<Rightarrow>
                         andThen
                           (expand_loop places 0 opts flds 0
                              (take (length places) defaults
                               @ replicate (length places - length defaults) []))
                           (\<lambda>expandedFields. Returns (Inr expandedFields))))"

subsection \<open>Descriptors\<close>

text \<open>
  The time zone database and the duration syntax belong to package \<open>time\<close>; the
  parser takes them as given: \<open>time.Local\<close>, \<open>time.LoadLocation\<close> and
  \<open>time.ParseDuration\<close>, the last two with \<open>None\<close> for an error.
\<close>

record env =
  time_Local :: Location
  time_LoadLocation :: "string \<Rightarrow> Location option"
  time_ParseDuration :: "string \<Rightarrow> int64 option"

definition one_bit :: "uint \<Rightarrow> uint64" where
  "one_bit n = push_bit (unat n) 1"

definition parseDescriptor ::
  "env \<Rightarrow> string \<Rightarrow> Location \<Rightarrow> (parse_error + Schedule) outcome" where
  "parseDescriptor e descriptor loc =
     (if descriptor = ''@yearly'' \<or> descriptor = ''@annually'' then
        andThen (all_bits dow) (\<lambda>w.
          Returns (Inr (Spec \<lparr>Second = one_bit (min_b seconds), Minute = one_bit (min_b minutes),
            Hour = one_bit (min_b hours), Dom = one_bit (min_b dom),
            Month = one_bit (min_b months), Dow = w, Location = loc\<rparr>)))
      else if descriptor = ''@monthly'' then
        andThen (all_bits months) (\<lambda>m. andThen (all_bits dow) (\<lambda>w.
          Returns (Inr (Spec \<lparr>Second = one_bit (min_b seconds), Minute = one_bit (min_b minutes),
            Hour = one_bit (min_b hours), Dom = one_bit (min_b dom),
            Month = m, Dow = w, Location = loc\<rparr>))))
      else if descriptor = ''@weekly'' then
        andThen (all_bits dom) (\<lambda>d. andThen (all_bits months) (\<lambda>m.
          Returns (Inr (Spec \<lparr>Second = one_bit (min_b seconds), Minute = one_bit (min_b minutes),
            Hour = one_bit (min_b hours), Dom = d,
            Month = m, Dow = one_bit (min_b dow), Location = loc\<rparr>))))
      else if descriptor = ''@daily'' \<or> descriptor = ''@midnight'' then
        andThen (all_bits dom) (\<lambda>d. andThen (all_bits months) (\<lambda>m. andThen (all_bits dow) (\<lambda>w.
          Returns (Inr (Spec \<lparr>Second = one_bit (min_b seconds), Minute = one_bit (min_b minutes),
            Hour = one_bit (min_b hours), Dom = d,
            Month = m, Dow = w, Location = loc\<rparr>)))))
      else if descriptor = ''@hourly'' then
        andThen (all_bits hours) (\<lambda>h. andThen (all_bits dom) (\<lambda>d.
        andThen (all_bits months) (\<lambda>m. andThen (all_bits dow) (\<lambda>w.
          Returns (Inr (Spec \<lparr>Second = one_bit (min_b seconds), Minute = one_bit (min_b minutes),
            Hour = h, Dom = d, Month = m, Dow = w, Location = loc\<rparr>))))))
      else if HasPrefix descriptor ''@every '' then
        andThen (slice_from descriptor (int (length ''@every ''))) (\<lambda>d.
          case time_ParseDuration e d of
            None \<Rightarrow> Returns (Inl (FailedToParseDuration descriptor))
          | Some duration \<Rightarrow> Returns (Inr (ConstantDelay (Every duration))))
      else Returns (Inl (UnrecognizedDescriptor descriptor)))"

subsection \<open>Parse\<close>

text \<open>
  The closure \<open>field\<close> of \<open>Parse\<close> reads and writes the variable \<open>err\<close> of its
  function: once an error is set, the later fields are not parsed.
\<close>

definition field :: "parse_error option \<Rightarrow> string \<Rightarrow> bounds \<Rightarrow> (parse_error option \<times> uint64) outcome" where
  "field err f r =
     (case err of Some x \<Rightarrow> Returns (err, 0)
      | None \<Rightarrow> andThen (getField f r) (\<lambda>res.
          case res of Inl x \<Rightarrow> Returns (Some x, 0) | Inr bits \<Rightarrow> Returns (None, bits)))"

definition parse_location :: "env \<Rightarrow> string \<Rightarrow> (parse_error + Location \<times> string) outcome" where
  "parse_location e spec =
     (if HasPrefix spec ''TZ='' \<or> HasPrefix spec ''CRON_TZ='' then
        (let i = Index spec '' ''; eq = Index spec ''='' in
         andThen (slice spec (eq + 1) i) (\<lambda>name.
           case time_LoadLocation e name of
             None \<Rightarrow> Returns (Inl (BadLocation name))
           | Some loc \<Rightarrow> andThen (slice_from spec i) (\<lambda>rest. Returns (Inr (loc, TrimSpace rest)))))
      else Returns (Inr (time_Local e, spec)))"

definition parse_fields :: "string list \<Rightarrow> Location \<Rightarrow> (parse_error + Schedule) outcome" where
  "parse_fields flds loc =
     andThen (index flds 0) (\<lambda>f0. andThen (field None f0 seconds) (\<lambda>(err0, second).
     andThen (index flds 1) (\<lambda>f1. andThen (field err0 f1 minutes) (\<lambda>(err1, minute).
     andThen (index flds 2) (\<lambda>f2. andThen (field err1 f2 hours) (\<lambda>(err2, hour).
     andThen (index flds 3) (\<lambda>f3. andThen (field err2 f3 dom) (\<lambda>(err3, dayofmonth).
     andThen (index flds 4) (\<lambda>f4. andThen (field err3 f4 months) (\<lambda>(err4, month).
     andThen (index flds 5) (\<lambda>f5. andThen (field err4 f5 dow) (\<lambda>(err5, dayofweek).
       case err5 of Some x \<Rightarrow> Returns (Inl x)
       | None \<Rightarrow> Returns (Inr (Spec \<lparr>Second = second, Minute = minute, Hour = hour,
           Dom = dayofmonth, Month = month, Dow = dayofweek, Location = loc\<rparr>))))))))))))))"

definition Parse :: "env \<Rightarrow> Parser \<Rightarrow> string \<Rightarrow> (parse_error + Schedule) outcome" where
  "Parse e p spec0 =
     (if length spec0 = 0 then Returns (Inl EmptySpecString)
      else andThen (parse_location e spec0) (\<lambda>located.
        case located of Inl err \<Rightarrow> Returns (Inl err)
        | Inr (loc, spec) \<Rightarrow>
            if HasPrefix spec ''@'' then
              (if options p AND Descriptor = 0
               then Returns (Inl (DescriptorsNotAccepted spec))
               else parseDescriptor e spec loc)
            else andThen (normalizeFields (Fields spec) (options p)) (\<lambda>normalized.
              case normalized of Inl err \<Rightarrow> Returns (Inl err)
              | Inr flds \<Rightarrow> parse_fields flds loc)))"

definition NewParser :: "ParseOption \<Rightarrow> Parser outcome" where
  "NewParser opts =
     (let optionals0 = (if has_option opts DowOptional then 1 else 0 :: int);
          optionals = (if has_option opts SecondOptional then optionals0 + 1 else optionals0)
      in if optionals > 1 then Panics (Explicit ''multiple optionals may not be configured'')
         else Returns \<lparr>options = opts\<rparr>)"

definition standardParser :: Parser where
  "standardParser =
     \<lparr>options = Minute_opt OR Hour_opt OR Dom_opt OR Month_opt OR Dow_opt OR Descriptor\<rparr>"

definition ParseStandard :: "env \<Rightarrow> string \<Rightarrow> (parse_error + Schedule) outcome" where
  "ParseStandard e standardSpec = Parse e standardParser standardSpec"

section \<open>Package \<open>time\<close>\<close>

text \<open>
  A \<open>time.Time\<close> is an instant and a location. The instant is the count of nanoseconds
  since January 1 of year 1, 00:00:00 UTC, the zero time; it is an unbounded integer
  here, the 64-bit range of the seconds of Go's representation being some 292 billion
  years. The calendar is the proleptic Gregorian one, with days counted from day 0,
  January 1 of year 1, a Monday. Go's \<open>int\<close> fields of a date are unbounded integers as
  well.
\<close>

record Time =
  ns :: int
  loc :: Location

definition zero_Time :: Time where
  "zero_Time = \<lparr>ns = 0, loc = UTC\<rparr>"

definition IsZero :: "Time \<Rightarrow> bool" where
  "IsZero t = (ns t = 0)"

definition Before :: "Time \<Rightarrow> Time \<Rightarrow> bool" where
  "Before t u = (ns t < ns u)"

definition After :: "Time \<Rightarrow> Time \<Rightarrow> bool" where
  "After t u = (ns t > ns u)"

definition Add :: "Time \<Rightarrow> int64 \<Rightarrow> Time" where
  "Add t d = t\<lparr>ns := ns t + sint d\<rparr>"

definition Nanosecond :: "Time \<Rightarrow> int" where
  "Nanosecond t = ns t mod 1000000000"

definition In :: "Time \<Rightarrow> Location \<Rightarrow> Time" where
  "In t l = t\<lparr>loc := l\<rparr>"

definition Truncate :: "Time \<Rightarrow> int64 \<Rightarrow> Time" where
  "Truncate t d = (if sint d \<le> 0 then t else t\<lparr>ns := ns t - ns t mod sint d\<rparr>)"

subsection \<open>Zone offsets\<close>

definition unixToInternal :: int where
  "unixToInternal = 62135596800"

definition alpha :: int where "alpha = - (2 ^ 63)"
definition omega :: int where "omega = 2 ^ 63 - 1"

text \<open>
  \<open>lookup\<close> gives the offset in use at a Unix time, and the Unix times at which that
  offset starts and ends.
\<close>

fun lookup_txs :: "int \<Rightarrow> int \<Rightarrow> (int \<times> int) list \<Rightarrow> int \<Rightarrow> int \<times> int \<times> int" where
  "lookup_txs off start [] sec = (off, start, omega)"
| "lookup_txs off start ((w, off') # txs) sec =
     (if sec < w then (off, start, w) else lookup_txs off' w txs sec)"

fun lookup :: "Location \<Rightarrow> int \<Rightarrow> int \<times> int \<times> int" where
  "lookup (Local off txs) sec = lookup_txs off alpha txs sec"
| "lookup (Loc off txs) sec = lookup_txs off alpha txs sec"

text \<open>The seconds of the wall clock since the zero time, in the location of the time.\<close>

definition abs_sec :: "Time \<Rightarrow> int" where
  "abs_sec t =
     (let sec = ns t div 1000000000 in sec + fst (lookup (loc t) (sec - unixToInternal)))"

subsection \<open>The calendar\<close>

definition isLeap :: "int \<Rightarrow> bool" where
  "isLeap year = (year mod 4 = 0 \<and> (year mod 100 \<noteq> 0 \<or> year mod 400 = 0))"

definition daysBefore :: "int list" where
  "daysBefore = [0, 31, 59, 90, 120, 151, 181, 212, 243, 273, 304, 334, 365]"

text \<open>The days from January 1 of year 1 to January 1 of a year.\<close>

definition daysSinceEpoch :: "int \<Rightarrow> int" where
  "daysSinceEpoch year =
     365 * (year - 1) + (year - 1) div 4 - (year - 1) div 100 + (year - 1) div 400"

text \<open>
  The year and the day of the year (from 0) of a day number: 400-year cycles, then
  100-year cycles (the fourth is a day longer), 4-year cycles, and years (the fourth
  is a day longer).
\<close>

definition year_yday :: "int \<Rightarrow> int \<times> int" where
  "year_yday d =
     (let n400 = d div 146097; d1 = d mod 146097;
          n100 = min 3 (d1 div 36524); d2 = d1 - 36524 * n100;
          n4 = d2 div 1461; d3 = d2 mod 1461;
          n1 = min 3 (d3 div 365); d4 = d3 - 365 * n1
      in (400 * n400 + 100 * n100 + 4 * n4 + n1 + 1, d4))"

definition month_length :: "bool \<Rightarrow> nat \<Rightarrow> int" where
  "month_length leap m =
     (if m = 2 then (if leap then 29 else 28)
      else if m = 4 \<or> m = 6 \<or> m = 9 \<or> m = 11 then 30 else 31)"

text \<open>The month and the day of the month of a day of the year, month by month.\<close>

fun month_day :: "bool \<Rightarrow> nat list \<Rightarrow> int \<Rightarrow> int \<times> int" where
  "month_day leap [] yday = (13, yday + 1)"
| "month_day leap (m # ms) yday =
     (if yday < month_length leap m then (int m, yday + 1)
      else month_day leap ms (yday - month_length leap m))"

definition months12 :: "nat list" where
  "months12 = [1, 2, 3, 4, 5, 6, 7, 8, 9, 10, 11, 12]"

definition date_of_day :: "int \<Rightarrow> int \<times> int \<times> int" where
  "date_of_day d =
     (let (year, yday) = year_yday d;
          (month, day) = month_day (isLeap year) months12 yday
      in (year, month, day))"

definition Year :: "Time \<Rightarrow> int" where
  "Year t = fst (date_of_day (abs_sec t div 86400))"

definition Month_of :: "Time \<Rightarrow> int" where
  "Month_of t = fst (snd (date_of_day (abs_sec t div 86400)))"

definition Day :: "Time \<Rightarrow> int" where
  "Day t = snd (snd (date_of_day (abs_sec t div 86400)))"

definition Weekday :: "Time \<Rightarrow> int" where
  "Weekday t = (abs_sec t div 86400 + 1) mod 7"

definition Hour_of :: "Time \<Rightarrow> int" where
  "Hour_of t = abs_sec t mod 86400 div 3600"

definition Minute_of :: "Time \<Rightarrow> int" where
  "Minute_of t = abs_sec t mod 3600 div 60"

definition Second_of :: "Time \<Rightarrow> int" where
  "Second_of t = abs_sec t mod 60"

text \<open>
  \<open>time.Date\<close> normalises its arguments (month 13 is January of the next year, day 32
  of a month with 31 days is the first of the next month), takes the result as a wall
  clock time of the location, and looks the offset up twice when the first guess falls
  outside the zone it found.
\<close>

definition norm :: "int \<Rightarrow> int \<Rightarrow> int \<Rightarrow> int \<times> int" where
  "norm hi lo base = (hi + lo div base, lo mod base)"

definition Date :: "int \<Rightarrow> int \<Rightarrow> int \<Rightarrow> int \<Rightarrow> int \<Rightarrow> int \<Rightarrow> int \<Rightarrow> Location \<Rightarrow> Time" where
  "Date year0 month0 day0 hour0 min0 sec0 nsec0 l =
     (let (year, m) = norm year0 (month0 - 1) 12;
          month = m + 1;
          (sec1, nsec) = norm sec0 nsec0 1000000000;
          (min1, sec) = norm min0 sec1 60;
          (hour1, mn) = norm hour0 min1 60;
          (day, hour) = norm day0 hour1 24;
          d = daysSinceEpoch year + daysBefore ! nat (month - 1)
              + (if isLeap year \<and> month \<ge> 3 then 1 else 0) + (day - 1);
          unix = d * 86400 + hour * 3600 + mn * 60 + sec - unixToInternal;
          (offset, start, end) = lookup l unix;
          unix' = (if offset \<noteq> 0 then
                     (let utc = unix - offset;
                          offset' = (if utc < start \<or> utc \<ge> end then fst (lookup l utc)
                                     else offset)
                      in unix - offset')
                   else unix)
      in \<lparr>ns = (unix' + unixToInternal) * 1000000000 + nsec, loc = l\<rparr>)"

definition AddDate :: "Time \<Rightarrow> int \<Rightarrow> int \<Rightarrow> int \<Rightarrow> Time" where
  "AddDate t nyears nmonths ndays =
     Date (Year t + nyears) (Month_of t + nmonths) (Day t + ndays)
       (Hour_of t) (Minute_of t) (Second_of t) (Nanosecond t) (loc t)"

section \<open>Interval schedules: \<open>Next\<close>\<close>

definition ConstantDelaySchedule_Next :: "ConstantDelaySchedule \<Rightarrow> Time \<Rightarrow> Time" where
  "ConstantDelaySchedule_Next schedule t =
     Add t (Delay schedule - word_of_int (Nanosecond t) * time_Nanosecond)"

section \<open>Field-based schedules: \<open>Next\<close>\<close>

text \<open>The bit \<open>1 << uint(n)\<close> of a calendar field \<open>n\<close>.\<close>

definition field_bit :: "int \<Rightarrow> uint64" where
  "field_bit n = push_bit (unat (word_of_int n :: uint)) 1"

definition dayMatches :: "SpecSchedule \<Rightarrow> Time \<Rightarrow> bool" where
  "dayMatches s t =
     (let domMatch = (field_bit (Day t) AND Dom s > 0);
          dowMatch = (field_bit (Weekday t) AND Dow s > 0)
      in if Dom s AND starBit > 0 \<or> Dow s AND starBit > 0 then domMatch \<and> dowMatch
         else domMatch \<or> dowMatch)"

text \<open>
  \<open>Next\<close> is five loops in a row, for the month, the day, the hour, the minute and the
  second, each of which jumps back to the label \<open>WRAP\<close> before the first when its field
  wraps around. The state of the run is the label it is at, the flag \<open>added\<close> and the
  time \<open>t\<close>; the run from a state is a partial function, \<open>None\<close> when it does not
  return.
\<close>

datatype label = WRAP | MonthLoop | DayLoop | HourLoop | MinuteLoop | SecondLoop

text \<open>The body of each loop up to its test for the wrap-around: the time it moves to.\<close>

definition month_step :: "Location \<Rightarrow> bool \<Rightarrow> Time \<Rightarrow> Time" where
  "month_step l added t =
     (let t1 = (if \<not> added then Date (Year t) (Month_of t) 1 0 0 0 0 l else t)
      in AddDate t1 0 1 0)"

definition day_step :: "Location \<Rightarrow> bool \<Rightarrow> Time \<Rightarrow> Time" where
  "day_step l added t =
     (let t1 = (if \<not> added then Date (Year t) (Month_of t) (Day t) 0 0 0 0 l else t);
          t2 = AddDate t1 0 0 1
      in if Hour_of t2 \<noteq> 0 then
           (if Hour_of t2 > 12 then Add t2 (word_of_int (24 - Hour_of t2) * time_Hour)
            else Add t2 (word_of_int (- Hour_of t2) * time_Hour))
         else t2)"

definition hour_step :: "Location \<Rightarrow> bool \<Rightarrow> Time \<Rightarrow> Time" where
  "hour_step l added t =
     (let t1 = (if \<not> added then Date (Year t) (Month_of t) (Day t) (Hour_of t) 0 0 0 l else t)
      in Add t1 (1 * time_Hour))"

definition minute_step :: "bool \<Rightarrow> Time \<Rightarrow> Time" where
  "minute_step added t =
     (let t1 = (if \<not> added then Truncate t time_Minute else t)
      in Add t1 (1 * time_Minute))"

definition second_step :: "bool \<Rightarrow> Time \<Rightarrow> Time" where
  "second_step added t =
     (let t1 = (if \<not> added then Truncate t time_Second else t)
      in Add t1 (1 * time_Second))"

text \<open>
  One step of the run from a label: the label, flag and time it goes on with
  (\<open>Inl\<close>), or the time that \<open>Next\<close> returns (\<open>Inr\<close>).
\<close>

definition Next_step ::
  "SpecSchedule \<Rightarrow> Location \<Rightarrow> Location \<Rightarrow> int \<Rightarrow> label \<times> bool \<times> Time \<Rightarrow>
   (label \<times> bool \<times> Time) + Time" where
  "Next_step s origLocation l yearLimit st =
     (case st of (at, added, t) \<Rightarrow>
      if at = WRAP then
        (if Year t > yearLimit then Inr zero_Time else Inl (MonthLoop, added, t))
      else if at = MonthLoop then
        (if field_bit (Month_of t) AND Month s = 0 then
           (let t' = month_step l added t
            in if Month_of t' = 1 then Inl (WRAP, True, t') else Inl (MonthLoop, True, t'))
         else Inl (DayLoop, added, t))
      else if at = DayLoop then
        (if \<not> dayMatches s t then
           (let t' = day_step l added t
            in if Day t' = 1 then Inl (WRAP, True, t') else Inl (DayLoop, True, t'))
         else Inl (HourLoop, added, t))
      else if at = HourLoop then
        (if field_bit (Hour_of t) AND Hour s = 0 then
           (let t' = hour_step l added t
            in if Hour_of t' = 0 then Inl (WRAP, True, t') else Inl (HourLoop, True, t'))
         else Inl (MinuteLoop, added, t))
      else if at = MinuteLoop then
        (if field_bit (Minute_of t) AND Minute s = 0 then
           (let t' = minute_step added t
            in if Minute_of t' = 0 then Inl (WRAP, True, t') else Inl (MinuteLoop, True, t'))
         else Inl (SecondLoop, added, t))
      else
        (if field_bit (Second_of t) AND Second s = 0 then
           (let t' = second_step added t
            in if Second_of t' = 0 then Inl (WRAP, True, t') else Inl (SecondLoop, True, t'))
         else Inr (In t origLocation)))"

partial_function (option) Next_from ::
  "(label \<times> bool \<times> Time \<Rightarrow> (label \<times> bool \<times> Time) + Time) \<Rightarrow> label \<times> bool \<times> Time \<Rightarrow>
   Time option" where
  "Next_from step st = (case step st of Inl st' \<Rightarrow> Next_from step st' | Inr r \<Rightarrow> Some r)"

declare Next_from.simps [code]

definition SpecSchedule_Next :: "SpecSchedule \<Rightarrow> Time \<Rightarrow> Time option" where
  "SpecSchedule_Next s t0 =
     (let origLocation = loc t0;
          l = (if is_Local (Location s) then loc t0 else Location s);
          t1 = (if \<not> is_Local (Location s) then In t0 (Location s) else t0);
          t = Add t1 (1 * time_Second - word_of_int (Nanosecond t1) * time_Nanosecond);
          yearLimit = Year t + 5
      in Next_from (Next_step s origLocation l yearLimit) (WRAP, False, t))"

text \<open>
  Lord Howe Island keeps UTC+10:30 in winter and UTC+11:00 in summer. The location
  below is the zone around the start of summer time in 2019: the clocks went from 02:00
  to 02:30 on October 6, at 15:30 UTC of October 5 (Unix time 1570289400). The
  schedule is the one of the specification \<open>45 1 * * *\<close>, every day at 01:45:00.
\<close>

definition Lord_Howe :: Location where
  "Lord_Howe = Loc 37800 [(1570289400, 39600)]"

definition daily_0145 :: SpecSchedule where
  "daily_0145 =
     \<lparr>Second = 1, Minute = push_bit 45 1, Hour = push_bit 1 1,
      Dom = getBits_shift 1 31 OR starBit, Month = getBits_shift 1 12 OR starBit,
      Dow = getBits_shift 0 6 OR starBit, Location = Lord_Howe\<rparr>"

definition tz_env :: env where
  "tz_env =
     \<lparr>time_Local = Local 0 [],
      time_LoadLocation = (\<lambda>name. if name = ''Australia/Lord_Howe'' then Some Lord_Howe
                                   else if name = ''UTC'' then Some UTC else None),
      time_ParseDuration = (\<lambda>s. None)\<rparr>"

section \<open>cron.go\<close>

text \<open>
  An entry of the engine. Its schedule is a value of an interface type, here a type
  parameter with the method \<open>Next\<close> given as a function wherever it is called. The
  identity \<open>EntryID\<close> is a Go \<open>int\<close>.
\<close>

type_synonym EntryID = int64

record ('sched, 'job) Entry =
  ID :: EntryID
  Schedule :: 'sched
  Next :: Time
  Prev :: Time
  WrappedJob :: 'job
  Job :: 'job

definition Valid :: "('sched, 'job) Entry \<Rightarrow> bool" where
  "Valid e = (ID e \<noteq> 0)"

definition byTime_Less :: "('sched, 'job) Entry list \<Rightarrow> nat \<Rightarrow> nat \<Rightarrow> bool" where
  "byTime_Less s i j =
     (if IsZero (Next (s ! i)) then False
      else if IsZero (Next (s ! j)) then True
      else Before (Next (s ! i)) (Next (s ! j)))"

text \<open>
  The fields of \<open>Cron\<close> that \<open>Schedule\<close> and the dispatch of the run loop read and
  write. The channel \<open>add\<close> is the list of the entries sent on it.
\<close>

record ('sched, 'job) Cron =
  entries :: "('sched, 'job) Entry list"
  chain :: "'job Chain"
  add :: "('sched, 'job) Entry list"
  running :: bool
  nextID :: EntryID

definition New :: "('sched, 'job) Cron" where
  "New = \<lparr>entries = [], chain = NewChain [], add = [], running = False, nextID = 0\<rparr>"

definition Cron_Schedule ::
  "('sched, 'job) Cron \<Rightarrow> 'sched \<Rightarrow> 'job \<Rightarrow> ('sched, 'job) Cron \<times> EntryID" where
  "Cron_Schedule c0 schedule cmd =
     (let c = c0\<lparr>nextID := nextID c0 + 1\<rparr>;
          entry = \<lparr>ID = nextID c, Schedule = schedule, Next = zero_Time, Prev = zero_Time,
                   WrappedJob = Then (chain c) cmd, Job = cmd\<rparr>
      in (if \<not> running c then c\<lparr>entries := entries c @ [entry]\<rparr>
          else c\<lparr>add := add c @ [entry]\<rparr>,
          ID entry))"

text \<open>
  A run of registrations on one engine; between two of them the engine may have been
  started or stopped, so each comes with the value of \<open>running\<close> it finds. The result
  is the engine and the identities returned, in order.
\<close>

fun Schedule_all ::
  "('sched, 'job) Cron \<Rightarrow> (bool \<times> 'sched \<times> 'job) list \<Rightarrow> ('sched, 'job) Cron \<times> EntryID list" where
  "Schedule_all c [] = (c, [])"
| "Schedule_all c ((r, schedule, cmd) # rest) =
     (let (c1, i) = Cron_Schedule (c\<lparr>running := r\<rparr>) schedule cmd;
          (c2, is) = Schedule_all c1 rest
      in (c2, i # is))"

text \<open>
  The dispatch of one wake-up of the run loop: the loop over the entries that breaks at
  the first entry whose \<open>Next\<close> is after \<open>now\<close> or zero, starts the job of every entry
  before it and moves its \<open>Prev\<close> and \<open>Next\<close>. The result is the jobs started, in
  order, and the entries after the loop.
\<close>

fun run_wake ::
  "('sched \<Rightarrow> Time \<Rightarrow> Time) \<Rightarrow> Time \<Rightarrow> ('sched, 'job) Entry list \<Rightarrow>
   'job list \<times> ('sched, 'job) Entry list" where
  "run_wake next now [] = ([], [])"
| "run_wake next now (e # es) =
     (if After (Next e) now \<or> IsZero (Next e) then ([], e # es)
      else (let (started, es') = run_wake next now es
            in (WrappedJob e # started, e\<lparr>Prev := Next e, Next := next (Schedule e) now\<rparr> # es')))"

text \<open>
  What \<open>sort.Sort(byTime(entries))\<close> leaves: no entry is less than an entry before it.
\<close>

definition sorted_byTime :: "('sched, 'job) Entry list \<Rightarrow> bool" where
  "sorted_byTime es = (\<forall>j < length es. \<forall>i < j. \<not> byTime_Less es j i)"

text \<open>The comparison of \<open>byTime.Less\<close> on two entries.\<close>

definition entry_less :: "('sched, 'job) Entry \<Rightarrow> ('sched, 'job) Entry \<Rightarrow> bool" where
  "entry_less a b = (\<not> IsZero (Next a) \<and> (IsZero (Next b) \<or> Before (Next a) (Next b)))"

text \<open>An entry is due at \<open>now\<close> when its \<open>Next\<close> is not zero and not after \<open>now\<close>.\<close>

definition due :: "Time \<Rightarrow> ('sched, 'job) Entry \<Rightarrow> bool" where
  "due now e = (\<not> IsZero (Next e) \<and> \<not> After (Next e) now)"

section \<open>Properties of the chain\<close>

lemma Then_loop_append:
  "Then_loop ws (is @ js) j = Then_loop ws js (Then_loop ws is j)"
  by (induction "is" arbitrary: j) simp_all

lemma Then_loop_upt:
  "n \<le> length ws \<Longrightarrow>
   Then_loop ws [0 ..< n] j = foldr (\<lambda>w. w) (drop (length ws - n) ws) j"
proof (induction n)
  case 0
  then show ?case by simp
next
  case (Suc n)
  then have lt: "length ws - Suc n < length ws" by simp
  have d: "drop (length ws - Suc n) ws = ws ! (length ws - Suc n) # drop (length ws - n) ws"
    using Suc.prems Cons_nth_drop_Suc [OF lt] by (simp add: Suc_diff_Suc)
  have "Then_loop ws [0 ..< Suc n] j = (ws ! (length ws - Suc n)) (Then_loop ws [0 ..< n] j)"
    by (simp add: Then_loop_append)
  with Suc d show ?case by simp
qed

lemma decorate_foldr: "decorate ds r = foldr (\<lambda>d. d) ds r"
  by (induction ds) simp_all

lemma Then_NewChain: "Then (NewChain ds) r = decorate ds r"
  by (simp add: Then_def NewChain_def Then_loop_upt decorate_foldr)

text \<open>
  C7. For every list of wrappers and every job, \<open>NewChain(d1, ..., dn).Then(r)\<close> is
  \<open>d1(d2(...dn(r)))\<close>: the first wrapper of the list is the outermost one, and the
  empty chain returns the job unchanged.
\<close>

theorem Then_decorates:
  "Then (NewChain ds) r = decorate ds r \<and> Then (NewChain []) r = r
   \<and> Then (NewChain (d # ds)) r = d (Then (NewChain ds) r)"
  by (simp add: Then_NewChain)

section \<open>Properties of the bit sets\<close>

lemma bit_getBits_shift:
  assumes "unat mx < 64"
  shows "bit (getBits_shift mn mx) n \<longleftrightarrow> n < 64 \<and> unat mn \<le> n \<and> n \<le> unat mx"
proof -
  have "unat (mx + 1) = unat mx + 1"
    using assms by (simp add: unat_word_ariths)
  then show ?thesis
    by (auto simp add: getBits_shift_def MaxUint64_def bit_simps not_le less_Suc_eq_le
        dest: bit_imp_le_length)
qed

lemma bit_one_shift: "bit (push_bit k (1::64 word)) n \<longleftrightarrow> n = k \<and> n < 64"
  by (auto simp add: bit_simps)

lemma step_dvd_split:
  fixes i s n :: nat
  assumes "0 < s" "i \<le> n"
  shows "s dvd (n - i) \<longleftrightarrow> n = i \<or> (i + s \<le> n \<and> s dvd (n - (i + s)))"
proof (cases "n = i")
  case True
  then show ?thesis by simp
next
  case False
  show ?thesis
  proof
    assume d: "s dvd (n - i)"
    from False assms have "0 < n - i" by simp
    with d have "s \<le> n - i" by (simp add: dvd_imp_le)
    then have le: "i + s \<le> n" using assms by simp
    then have "n - i = (n - (i + s)) + s" by simp
    with d have "s dvd (n - (i + s))" by (metis dvd_add_triv_right_iff)
    with le show "n = i \<or> (i + s \<le> n \<and> s dvd (n - (i + s)))" by simp
  next
    assume "n = i \<or> (i + s \<le> n \<and> s dvd (n - (i + s)))"
    with False have le: "i + s \<le> n" and d: "s dvd (n - (i + s))" by auto
    from le have "n - i = (n - (i + s)) + s" by simp
    with d show "s dvd (n - i)" by (metis dvd_add_triv_right_iff)
  qed
qed

text \<open>
  The loop of \<open>getBits\<close> returns when the step is positive and small enough for
  \<open>i + step\<close> not to wrap around, and sets exactly the bits \<open>i\<close>, \<open>i + step\<close>, ... up to
  the maximum.
\<close>

lemma getBits_loop_bits:
  assumes "0 < unat step" "unat step < 2 ^ 63" "unat mx < 64"
  shows "\<exists>r. getBits_loop i mx step bits = Some r \<and>
     (\<forall>n. bit r n \<longleftrightarrow>
        bit bits n \<or> (n < 64 \<and> unat i \<le> n \<and> n \<le> unat mx \<and> unat step dvd (n - unat i)))"
proof (induction "unat mx + 1 - unat i" arbitrary: i bits rule: less_induct)
  case less
  show ?case
  proof (cases "i \<le> mx")
    case False
    then have "unat mx < unat i" by (simp add: word_le_nat_alt)
    with False show ?thesis by (subst getBits_loop.simps) auto
  next
    case True
    then have le: "unat i \<le> unat mx" by (simp add: word_le_nat_alt)
    have u: "unat (i + step) = unat i + unat step"
      using le assms by (simp add: unat_word_ariths)
    with le assms(1) have "unat mx + 1 - unat (i + step) < unat mx + 1 - unat i" by simp
    from less [OF this, of "bits OR push_bit (unat i) 1"]
    obtain r where r: "getBits_loop (i + step) mx step (bits OR push_bit (unat i) 1) = Some r"
     "\<And>n. bit r n \<longleftrightarrow> bit (bits OR push_bit (unat i) 1) n \<or>
          (n < 64 \<and> unat (i + step) \<le> n \<and> n \<le> unat mx
           \<and> unat step dvd (n - unat (i + step)))"
      by auto
    have eq: "getBits_loop i mx step bits = Some r"
      using True r(1) by (subst getBits_loop.simps) simp
    have "bit r n \<longleftrightarrow>
        bit bits n \<or> (n < 64 \<and> unat i \<le> n \<and> n \<le> unat mx \<and> unat step dvd (n - unat i))" for n
    proof (cases "unat i \<le> n")
      case False
      then show ?thesis unfolding r(2) bit_or_iff bit_one_shift u by auto
    next
      case True
      show ?thesis
        unfolding r(2) bit_or_iff bit_one_shift u step_dvd_split [OF assms(1) True]
        using le assms(3) by auto
    qed
    with eq show ?thesis by blast
  qed
qed

text \<open>
  C10. For every maximum up to 63 and every minimum (also one above the maximum, where
  both give the empty bit set), the shift-based branch of \<open>getBits\<close> for step 1 gives
  the bit set that the loop of the other branch would give with step 1.
\<close>

theorem getBits_branches_agree:
  assumes "mx \<le> 63"
  shows "getBits_loop mn mx 1 0 = Some (getBits_shift mn mx)"
proof -
  from assms have mx: "unat mx < 64" by (simp add: word_le_nat_alt)
  from getBits_loop_bits [of 1 mx mn 0] mx
  obtain r where r: "getBits_loop mn mx 1 0 = Some r"
    "\<And>n. bit r n \<longleftrightarrow> n < 64 \<and> unat mn \<le> n \<and> n \<le> unat mx"
    by auto
  have "r = getBits_shift mn mx"
    by (rule bit_eqI) (simp add: r(2) bit_getBits_shift [OF mx])
  with r(1) show ?thesis by simp
qed

theorem getBits_branches_agree_witness:
  "(31 :: uint) \<le> 63 \<and> getBits_loop 1 31 1 0 = Some (getBits_shift 1 31)
   \<and> getBits_shift 1 31 = 4294967294"
proof -
  have le: "(31 :: uint) \<le> 63" by simp
  have v: "getBits_shift 1 31 = 4294967294" by code_simp
  from getBits_branches_agree [OF le, of 1] le v show ?thesis by simp
qed

section \<open>Properties of the parser\<close>

lemma Split_none: "c \<notin> set a \<Longrightarrow> Split a c = [a]"
  by (induction a) auto

lemma Split_append: "c \<notin> set a \<Longrightarrow> Split (a @ c # b) c = a # Split b c"
  by (induction a) auto

lemma Split_not_Nil: "Split s c \<noteq> []"
  by (induction s) (auto split: list.splits)

lemma hd_Split: "hd (Split s c) = takeWhile (\<lambda>x. x \<noteq> c) s"
  by (induction s) (auto split: list.splits simp: Split_not_Nil)

lemma takeWhile_both:
  "takeWhile (\<lambda>x. x \<noteq> a) (takeWhile (\<lambda>x. x \<noteq> b) s) = takeWhile (\<lambda>x. x \<noteq> a \<and> x \<noteq> b) s"
  by (induction s) auto

lemma Atoi_in_int64: "Atoi s = Some v \<Longrightarrow> in_int64 v"
  by (auto simp: Atoi_def Let_def split: list.splits if_splits option.splits prod.splits)

lemma mustParseInt_bound:
  assumes "mustParseInt s = Inr v"
  shows "unat v < 2 ^ 63"
proof -
  from assms obtain num where n: "Atoi s = Some num" "0 \<le> num" "v = word_of_int num"
    by (auto simp: mustParseInt_def split: option.splits if_splits)
  from Atoi_in_int64 [OF n(1)] have lt: "num < 2 ^ 63" by (simp add: in_int64_def)
  with n(2) have "unat (word_of_int num :: uint) = nat num"
    by (simp add: unat_eq_nat_uint uint_word_of_int)
  with n lt show ?thesis by simp
qed

text \<open>
  With a step that is not 0 and a maximum below 64, \<open>getBits\<close> returns, and the bits it
  sets are the start, the start plus the step, and so on up to the maximum.
\<close>

lemma getBits_returns:
  assumes "step \<noteq> 0" "unat step < 2 ^ 63" "unat mx < 64"
  shows "\<exists>bits. getBits mn mx step = Returns bits \<and>
     (\<forall>n. bit bits n \<longleftrightarrow> (\<exists>j. n = unat mn + j * unat step \<and> n \<le> unat mx))"
proof (cases "step = 1")
  case True
  have "(unat mn \<le> n \<and> n \<le> unat mx) \<longleftrightarrow> (\<exists>j. n = unat mn + j \<and> n \<le> unat mx)" for n
    by (auto simp: le_iff_add)
  with True assms(3) show ?thesis
    by (auto simp add: getBits_def bit_getBits_shift)
next
  case False
  from assms(1) have pos: "0 < unat step" by (simp add: unat_gt_0)
  from getBits_loop_bits [OF pos assms(2,3), of mn 0]
  obtain r where r: "getBits_loop mn mx step 0 = Some r"
    "\<And>n. bit r n \<longleftrightarrow> n < 64 \<and> unat mn \<le> n \<and> n \<le> unat mx \<and> unat step dvd (n - unat mn)"
    by auto
  have "bit r n \<longleftrightarrow> (\<exists>j. n = unat mn + j * unat step \<and> n \<le> unat mx)" for n
  proof
    assume "bit r n"
    with r(2) have h: "unat mn \<le> n" "n \<le> unat mx" "unat step dvd (n - unat mn)" by auto
    from h(3) obtain j where "n - unat mn = unat step * j" by (auto simp: dvd_def)
    with h(1) have "n = unat mn + j * unat step" by (simp add: mult.commute)
    with h(2) show "\<exists>j. n = unat mn + j * unat step \<and> n \<le> unat mx" by blast
  next
    assume "\<exists>j. n = unat mn + j * unat step \<and> n \<le> unat mx"
    then obtain j where j: "n = unat mn + j * unat step" "n \<le> unat mx" by blast
    then have "unat step dvd (n - unat mn)" by simp
    with j assms(3) show "bit r n" unfolding r(2) by simp
  qed
  with r(1) False show ?thesis by (simp add: getBits_def)
qed

subsection \<open>What \<open>getRange\<close> sees of a range expression\<close>

lemma Split_range_expr_slash:
  assumes "CHR ''/'' \<notin> set lo" "\<forall>h. hi = Some h \<longrightarrow> CHR ''/'' \<notin> set h"
    "\<forall>s. st = Some s \<longrightarrow> CHR ''/'' \<notin> set s"
  shows "Split (range_expr lo hi st) CHR ''/'' =
     (lo @ (case hi of None \<Rightarrow> [] | Some h \<Rightarrow> CHR ''-'' # h))
       # (case st of None \<Rightarrow> [] | Some s \<Rightarrow> [s])"
proof -
  let ?a = "lo @ (case hi of None \<Rightarrow> [] | Some h \<Rightarrow> CHR ''-'' # h)"
  have a: "CHR ''/'' \<notin> set ?a" using assms(1,2) by (auto split: option.splits)
  show ?thesis
  proof (cases st)
    case None
    then show ?thesis using Split_none [OF a] by (simp add: range_expr_def)
  next
    case (Some s)
    with assms(3) have "CHR ''/'' \<notin> set s" by simp
    then show ?thesis using Split_append [OF a, of s] Some
      by (simp add: range_expr_def Split_none)
  qed
qed

lemma Split_low_high:
  assumes "CHR ''-'' \<notin> set lo" "\<forall>h. hi = Some h \<longrightarrow> CHR ''-'' \<notin> set h"
  shows "Split (lo @ (case hi of None \<Rightarrow> [] | Some h \<Rightarrow> CHR ''-'' # h)) CHR ''-'' =
     lo # (case hi of None \<Rightarrow> [] | Some h \<Rightarrow> [h])"
  using assms by (cases hi) (simp_all add: Split_none Split_append)

lemma getRange_numeric:
  assumes sp: "Split expr CHR ''/'' = rng # (case st of None \<Rightarrow> [] | Some s \<Rightarrow> [s])"
      "Split rng CHR ''-'' = lo # (case hi of None \<Rightarrow> [] | Some h \<Rightarrow> [h])"
    and lo: "lo \<noteq> ''*''" "lo \<noteq> ''?''" "parseIntOrName lo (names r) = Inr start"
    and hi: "\<forall>h. hi = Some h \<longrightarrow> parseIntOrName h (names r) = Inr m"
    and st: "\<forall>s. st = Some s \<longrightarrow> mustParseInt s = Inr sv"
  shows "getRange expr r =
    (let end = (case hi of Some h \<Rightarrow> m | None \<Rightarrow> (case st of Some s \<Rightarrow> max_b r | None \<Rightarrow> start));
         step = (case st of Some s \<Rightarrow> sv | None \<Rightarrow> 1)
     in if start < min_b r then Returns (Inl (BelowMinimum start (min_b r) expr))
        else if end > max_b r then Returns (Inl (AboveMaximum end (max_b r) expr))
        else if start > end then Returns (Inl (BeyondEnd start end expr))
        else if step = 0 then Returns (Inl (StepNotPositive expr))
        else andThen (getBits start end step) (\<lambda>bits. Returns (Inr bits)))"
  using lo hi st
  by (cases hi; cases st)
     (simp_all add: getRange_def sp index_def range_low_high_def range_step_def range_check_def
        Let_def)

lemma getRange_range_expr:
  assumes mx: "unat (max_b r) < 64"
    and lo: "lo \<noteq> ''*''" "lo \<noteq> ''?''" "CHR ''-'' \<notin> set lo" "CHR ''/'' \<notin> set lo"
        "parseIntOrName lo (names r) = Inr start"
    and hi: "\<forall>h. hi = Some h \<longrightarrow>
        CHR ''-'' \<notin> set h \<and> CHR ''/'' \<notin> set h \<and> parseIntOrName h (names r) = Inr m"
    and st: "\<forall>s. st = Some s \<longrightarrow> CHR ''/'' \<notin> set s \<and> mustParseInt s = Inr sv"
    and expr: "expr = range_expr lo hi st"
    and "end": "end = (case hi of Some h \<Rightarrow> m
                      | None \<Rightarrow> (case st of Some s \<Rightarrow> max_b r | None \<Rightarrow> start))"
    and step: "step = (case st of Some s \<Rightarrow> sv | None \<Rightarrow> 1)"
  shows "if start < min_b r \<or> max_b r < end \<or> end < start \<or> step = 0
         then \<exists>err. getRange expr r = Returns (Inl err) \<and>
                err \<in> {BelowMinimum start (min_b r) expr, AboveMaximum end (max_b r) expr,
                       BeyondEnd start end expr, StepNotPositive expr}
         else \<exists>bits. getRange expr r = Returns (Inr bits) \<and>
                (\<forall>k. bit bits k \<longleftrightarrow> (\<exists>j. k = unat start + j * unat step \<and> k \<le> unat end))"
proof -
  have sp1: "Split expr CHR ''/'' =
      (lo @ (case hi of None \<Rightarrow> [] | Some h \<Rightarrow> CHR ''-'' # h))
        # (case st of None \<Rightarrow> [] | Some s \<Rightarrow> [s])"
    unfolding expr using lo(4) hi st by (intro Split_range_expr_slash) auto
  have sp2: "Split (lo @ (case hi of None \<Rightarrow> [] | Some h \<Rightarrow> CHR ''-'' # h)) CHR ''-'' =
      lo # (case hi of None \<Rightarrow> [] | Some h \<Rightarrow> [h])"
    using lo(3) hi by (intro Split_low_high) auto
  have g: "getRange expr r =
    (if start < min_b r then Returns (Inl (BelowMinimum start (min_b r) expr))
        else if end > max_b r then Returns (Inl (AboveMaximum end (max_b r) expr))
        else if start > end then Returns (Inl (BeyondEnd start end expr))
        else if step = 0 then Returns (Inl (StepNotPositive expr))
        else andThen (getBits start end step) (\<lambda>bits. Returns (Inr bits)))"
  proof -
    have h': "\<forall>h. hi = Some h \<longrightarrow> parseIntOrName h (names r) = Inr m" using hi by simp
    have s': "\<forall>s. st = Some s \<longrightarrow> mustParseInt s = Inr sv" using st by simp
    show ?thesis
      using getRange_numeric [OF sp1 sp2 lo(1,2,5) h' s']
      by (simp add: Let_def "end" step)
  qed
  show ?thesis
  proof (cases "start < min_b r \<or> max_b r < end \<or> end < start \<or> step = 0")
    case True
    then show ?thesis unfolding g by auto
  next
    case False
    then have ok: "end \<le> max_b r" "step \<noteq> 0" by auto
    from ok(1) mx have e: "unat end < 64" by (simp add: word_le_nat_alt)
    have sb: "unat step < 2 ^ 63"
      using st mustParseInt_bound [of _ sv] by (cases st) (auto simp: step)
    from getBits_returns [OF ok(2) sb e, of start] False
    show ?thesis unfolding g by auto
  qed
qed



subsection \<open>The wildcard mark\<close>

lemma bit_starBit: "bit starBit n \<longleftrightarrow> n = 63"
  by (auto simp only: starBit_def bit_one_shift)

lemma andThen_Returns_iff:
  "andThen m f = Returns y \<longleftrightarrow> (\<exists>x. m = Returns x \<and> f x = Returns y)"
  by (cases m) auto

lemma index_0: "xs \<noteq> [] \<Longrightarrow> index xs 0 = Returns (hd xs)"
  by (cases xs) (auto simp: index_def)

lemma case_sum_Returns_Inr:
  "(case x of Inl err \<Rightarrow> Returns (Inl err) | Inr v \<Rightarrow> f v) = Returns (Inr y)
   \<longleftrightarrow> (\<exists>v. x = Inr v \<and> f v = Returns (Inr y))"
  by (cases x) auto

lemma range_low_high_Inr:
  assumes "range_low_high expr lowAndHigh r = Returns (Inr (start, end, extra))" "lowAndHigh \<noteq> []"
  shows "extra = 0 \<or> (extra = starBit \<and> (hd lowAndHigh = ''*'' \<or> hd lowAndHigh = ''?''))"
  using assms
  by (auto simp: range_low_high_def index_0 andThen_Returns_iff index_def hd_conv_nth
      split: if_splits sum.splits)

lemma range_step_Inr:
  assumes "range_step expr rangeAndStep singleDigit r end0 extra0 = Returns (Inr (step, end, extra))"
  shows "(extra = 0 \<or> extra = extra0) \<and> unat step < 2 ^ 63"
  using assms
  by (auto simp: range_step_def andThen_Returns_iff index_def
      split: if_splits sum.splits dest: mustParseInt_bound)

lemma range_check_Inr:
  assumes "range_check expr r start end step extra = Returns (Inr bits)"
  shows "min_b r \<le> start \<and> start \<le> end \<and> end \<le> max_b r \<and> step \<noteq> 0
     \<and> (\<exists>b. getBits start end step = Returns b \<and> bits = b OR extra)"
  using assms
  by (auto simp: range_check_def andThen_Returns_iff split: if_splits)

lemma getRange_Inr:
  assumes "getRange expr r = Returns (Inr bits)"
  shows "\<exists>start end step extra b.
      (extra = 0 \<or> (extra = starBit \<and> (low_text expr = ''*'' \<or> low_text expr = ''?'')))
      \<and> min_b r \<le> start \<and> start \<le> end \<and> end \<le> max_b r \<and> step \<noteq> 0 \<and> unat step < 2 ^ 63
      \<and> getBits start end step = Returns b \<and> bits = b OR extra"
proof -
  let ?rs = "Split expr CHR ''/''"
  let ?lh = "Split (hd ?rs) CHR ''-''"
  have lt: "hd ?lh = low_text expr"
    by (simp add: hd_Split low_text_def takeWhile_both)
  from assms obtain start end0 extra0 step "end" extra where
    lh: "range_low_high expr ?lh r = Returns (Inr (start, end0, extra0))"
    and st: "range_step expr ?rs (length ?lh = 1) r end0 extra0 = Returns (Inr (step, end, extra))"
    and ck: "range_check expr r start end step extra = Returns (Inr bits)"
    by (auto simp: getRange_def Let_def index_0 Split_not_Nil andThen_Returns_iff
        case_sum_Returns_Inr)
  from range_low_high_Inr [OF lh Split_not_Nil] lt
  have e0: "extra0 = 0 \<or> (extra0 = starBit \<and> (low_text expr = ''*'' \<or> low_text expr = ''?''))"
    by simp
  from range_step_Inr [OF st]
  have e: "extra = 0 \<or> extra = extra0" and sb: "unat step < 2 ^ 63" by auto
  from e e0 sb range_check_Inr [OF ck] show ?thesis by blast
qed

lemma getRange_wildcard:
  assumes "min_b r \<le> max_b r" "unat (max_b r) < 63" "expr = ''*'' \<or> expr = ''?''"
  shows "\<exists>bits. getRange expr r = Returns (Inr bits) \<and>
            (\<forall>n. bit bits n \<longleftrightarrow> (unat (min_b r) \<le> n \<and> n \<le> unat (max_b r)) \<or> n = 63)"
proof -
  from assms(2) have mx: "unat (max_b r) < 64" by simp
  have "getRange expr r = Returns (Inr (getBits_shift (min_b r) (max_b r) OR starBit))"
    using assms(1,3)
    by (auto simp: getRange_def range_low_high_def range_step_def range_check_def index_def
        getBits_def Let_def)
  then show ?thesis using assms(2)
    by (auto simp: bit_or_iff bit_getBits_shift [OF mx] bit_starBit)
qed

lemma getRange_no_mark:
  assumes "unat (max_b r) < 63" "low_text expr \<noteq> ''*''" "low_text expr \<noteq> ''?''"
    "getRange expr r = Returns (Inr bits)"
  shows "\<not> bit bits 63"
proof -
  from getRange_Inr [OF assms(4)] assms(2,3)
  obtain start "end" step b where h: "end \<le> max_b r" "step \<noteq> 0" "unat step < 2 ^ 63"
      "getBits start end step = Returns b" "bits = b OR 0"
    by auto
  from h(1) assms(1) have e: "unat end < 63" by (simp add: word_le_nat_alt)
  then have "unat end < 64" by simp
  from getBits_returns [OF h(2,3) this, of start] h(4) e
  have "\<not> bit b 63" by auto
  with h(5) show ?thesis by simp
qed

lemma getRange_full_range:
  assumes "min_b r \<le> max_b r" "unat (max_b r) < 63"
    and lo: "lo \<noteq> ''*''" "lo \<noteq> ''?''" "CHR ''-'' \<notin> set lo" "CHR ''/'' \<notin> set lo"
        "parseIntOrName lo (names r) = Inr (min_b r)"
    and h: "CHR ''-'' \<notin> set h" "CHR ''/'' \<notin> set h" "parseIntOrName h (names r) = Inr (max_b r)"
  shows "\<exists>bits. getRange (range_expr lo (Some h) None) r = Returns (Inr bits) \<and>
               (\<forall>n. bit bits n \<longleftrightarrow> unat (min_b r) \<le> n \<and> n \<le> unat (max_b r))"
proof -
  from assms(2) have mx: "unat (max_b r) < 64" by simp
  have hi: "\<forall>x. Some h = Some x \<longrightarrow>
        CHR ''-'' \<notin> set x \<and> CHR ''/'' \<notin> set x \<and> parseIntOrName x (names r) = Inr (max_b r)"
    using h by simp
  have st: "\<forall>s. (None :: string option) = Some s \<longrightarrow> CHR ''/'' \<notin> set s \<and> mustParseInt s = Inr 1"
    by simp
  have c: "\<not> (min_b r < min_b r \<or> max_b r < max_b r \<or> max_b r < min_b r \<or> (1 :: uint) = 0)"
    using assms(1) by (simp add: not_less)
  have e: "max_b r = (case Some h of Some x \<Rightarrow> max_b r
      | None \<Rightarrow> (case (None :: string option) of Some s \<Rightarrow> max_b r | None \<Rightarrow> min_b r))"
    by simp
  have s: "(1 :: uint) = (case (None :: string option) of Some s \<Rightarrow> 1 | None \<Rightarrow> 1)" by simp
  have "if min_b r < min_b r \<or> max_b r < max_b r \<or> max_b r < min_b r \<or> (1 :: uint) = 0
         then \<exists>err. getRange (range_expr lo (Some h) None) r = Returns (Inl err) \<and>
                err \<in> {BelowMinimum (min_b r) (min_b r) (range_expr lo (Some h) None),
                       AboveMaximum (max_b r) (max_b r) (range_expr lo (Some h) None),
                       BeyondEnd (min_b r) (max_b r) (range_expr lo (Some h) None),
                       StepNotPositive (range_expr lo (Some h) None)}
         else \<exists>bits. getRange (range_expr lo (Some h) None) r = Returns (Inr bits) \<and>
                (\<forall>k. bit bits k \<longleftrightarrow> (\<exists>j. k = unat (min_b r) + j * unat (1 :: uint) \<and> k \<le> unat (max_b r)))"
    by (rule getRange_range_expr [OF mx lo hi st refl e s])
  with c obtain bits where b: "getRange (range_expr lo (Some h) None) r = Returns (Inr bits)"
    "\<And>k. bit bits k \<longleftrightarrow> (\<exists>j. k = unat (min_b r) + j * unat (1 :: uint) \<and> k \<le> unat (max_b r))"
    by (simp only: if_False) blast
  have "bit bits n \<longleftrightarrow> unat (min_b r) \<le> n \<and> n \<le> unat (max_b r)" for n
    unfolding b(2) by (auto simp: le_iff_add)
  with b(1) show ?thesis by blast
qed


text \<open>
  C4. Over a field whose bounds \<open>r\<close> have the minimum at most the maximum and the
  maximum below 63 (as all six fields have): a bare \<open>*\<close> or \<open>?\<close> gives the bit set with
  every bit from the minimum to the maximum and the wildcard mark, bit 63; an expression
  whose text before the first hyphen or slash is neither \<open>*\<close> nor \<open>?\<close> never gives a
  bit set with the mark; and the explicit range from the minimum to the maximum gives
  the bits from the minimum to the maximum and no other, so not the mark.
\<close>

theorem getRange_wildcard_mark:
  assumes "min_b r \<le> max_b r" "unat (max_b r) < 63"
  shows "(expr = ''*'' \<or> expr = ''?'' \<longrightarrow>
            (\<exists>bits. getRange expr r = Returns (Inr bits) \<and>
               (\<forall>n. bit bits n \<longleftrightarrow> (unat (min_b r) \<le> n \<and> n \<le> unat (max_b r)) \<or> n = 63)))
       \<and> (low_text expr \<noteq> ''*'' \<and> low_text expr \<noteq> ''?'' \<longrightarrow>
            (\<forall>bits. getRange expr r = Returns (Inr bits) \<longrightarrow> \<not> bit bits 63))
       \<and> (lo \<noteq> ''*'' \<and> lo \<noteq> ''?'' \<and> CHR ''-'' \<notin> set lo \<and> CHR ''/'' \<notin> set lo
            \<and> CHR ''-'' \<notin> set h \<and> CHR ''/'' \<notin> set h
            \<and> parseIntOrName lo (names r) = Inr (min_b r)
            \<and> parseIntOrName h (names r) = Inr (max_b r) \<longrightarrow>
            (\<exists>bits. getRange (range_expr lo (Some h) None) r = Returns (Inr bits) \<and>
               (\<forall>n. bit bits n \<longleftrightarrow> unat (min_b r) \<le> n \<and> n \<le> unat (max_b r))))"
proof (intro conjI impI allI)
  assume "expr = ''*'' \<or> expr = ''?''"
  with assms show "\<exists>bits. getRange expr r = Returns (Inr bits) \<and>
      (\<forall>n. bit bits n \<longleftrightarrow> (unat (min_b r) \<le> n \<and> n \<le> unat (max_b r)) \<or> n = 63)"
    by (rule getRange_wildcard)
next
  fix bits
  assume a: "low_text expr \<noteq> ''*'' \<and> low_text expr \<noteq> ''?''"
    and g: "getRange expr r = Returns (Inr bits)"
  from a have "low_text expr \<noteq> ''*''" "low_text expr \<noteq> ''?''" by simp_all
  from getRange_no_mark [OF assms(2) this g] show "\<not> bit bits 63" .
next
  assume a: "lo \<noteq> ''*'' \<and> lo \<noteq> ''?'' \<and> CHR ''-'' \<notin> set lo \<and> CHR ''/'' \<notin> set lo
            \<and> CHR ''-'' \<notin> set h \<and> CHR ''/'' \<notin> set h
            \<and> parseIntOrName lo (names r) = Inr (min_b r)
            \<and> parseIntOrName h (names r) = Inr (max_b r)"
  then have lo: "lo \<noteq> ''*''" "lo \<noteq> ''?''" "CHR ''-'' \<notin> set lo" "CHR ''/'' \<notin> set lo"
        "parseIntOrName lo (names r) = Inr (min_b r)"
    and h: "CHR ''-'' \<notin> set h" "CHR ''/'' \<notin> set h" "parseIntOrName h (names r) = Inr (max_b r)"
    by simp_all
  from getRange_full_range [OF assms lo h]
  show "\<exists>bits. getRange (range_expr lo (Some h) None) r = Returns (Inr bits) \<and>
               (\<forall>n. bit bits n \<longleftrightarrow> unat (min_b r) \<le> n \<and> n \<le> unat (max_b r))" .
qed


theorem getRange_wildcard_mark_witness:
  "(\<exists>bits. getRange ''*'' dom = Returns (Inr bits) \<and> bit bits 63 \<and> bit bits 1 \<and> bit bits 31
       \<and> \<not> bit bits 0 \<and> \<not> bit bits 32)
   \<and> (\<exists>bits. getRange ''1-31'' dom = Returns (Inr bits) \<and> \<not> bit bits 63)"
proof -
  have b: "min_b dom \<le> max_b dom" "unat (max_b dom) < 63" by (simp_all add: dom_def)
  have v: "unat (min_b dom) = 1" "unat (max_b dom) = 31" by (simp_all add: dom_def)
  have lt: "low_text ''1-31'' \<noteq> ''*'' \<and> low_text ''1-31'' \<noteq> ''?''" by (simp add: low_text_def)
  have g: "getRange ''1-31'' dom = Returns (Inr 4294967294)" by code_simp
  have t: "''*'' = ''*'' \<or> ''*'' = ''?''" by simp
  from getRange_wildcard_mark [OF b, of "''*''", THEN conjunct1, THEN mp, OF t]
  obtain bits where w: "getRange ''*'' dom = Returns (Inr bits)"
    and wb: "\<forall>n. bit bits n \<longleftrightarrow> (unat (min_b dom) \<le> n \<and> n \<le> unat (max_b dom)) \<or> n = 63"
    by (elim exE conjE)
  have "bit bits 63 \<and> bit bits 1 \<and> bit bits 31 \<and> \<not> bit bits 0 \<and> \<not> bit bits 32"
    by (simp add: wb v)
  with w have 1: "\<exists>bits. getRange ''*'' dom = Returns (Inr bits) \<and> bit bits 63 \<and> bit bits 1
       \<and> bit bits 31 \<and> \<not> bit bits 0 \<and> \<not> bit bits 32"
    by (intro exI [of _ bits] conjI) simp_all
  from getRange_wildcard_mark [OF b, of "''1-31''", THEN conjunct2, THEN conjunct1, THEN mp,
      OF lt, THEN spec, THEN mp, OF g]
  have "\<not> bit (4294967294 :: uint64) 63" .
  with g have 2: "\<exists>bits. getRange ''1-31'' dom = Returns (Inr bits) \<and> \<not> bit bits 63"
    by (intro exI [of _ 4294967294] conjI)
  from 1 2 show ?thesis by (rule conjI)
qed

subsection \<open>A time zone prefix without a space\<close>

lemma Index_from_absent:
  "c \<notin> set s \<Longrightarrow> Index_from k s [c] = - 1"
  by (induction s arbitrary: k) (auto simp: HasPrefix_def)

lemma Index_from_lower: "Index_from k s sub = - 1 \<or> k \<le> Index_from k s sub"
proof (induction s arbitrary: k)
  case Nil
  then show ?case by simp
next
  case (Cons c cs)
  from Cons [of "k + 1"] show ?case by auto
qed

text \<open>
  A specification that starts with \<open>TZ=\<close> or \<open>CRON_TZ=\<close> and has no space makes
  \<open>Parse\<close> panic: \<open>strings.Index\<close> gives \<open>-1\<close> for the space, and the slice
  expression \<open>spec[eq+1 : i]\<close> is out of range.
\<close>

lemma Parse_prefix_without_space:
  assumes "HasPrefix spec ''TZ='' \<or> HasPrefix spec ''CRON_TZ=''" "CHR '' '' \<notin> set spec"
  shows "Parse e p spec = Panics SliceBoundsOutOfRange"
proof -
  from assms(1) have ne: "spec \<noteq> []" by (auto simp: HasPrefix_def)
  from assms(2) have i: "Index spec '' '' = - 1" by (simp add: Index_def Index_from_absent)
  have "Index spec ''='' = - 1 \<or> 0 \<le> Index spec ''=''"
    unfolding Index_def by (rule Index_from_lower)
  then have "slice spec (Index spec ''='' + 1) (- 1) = Panics SliceBoundsOutOfRange"
    by (auto simp: slice_def)
  with assms(1) ne i show ?thesis
    by (simp add: Parse_def parse_location_def Let_def)
qed

text \<open>
  C3. The claim is that \<open>Parse\<close> never panics, whatever the form of a \<open>TZ=\<close> or
  \<open>CRON_TZ=\<close> prefix. On the specification \<open>TZ=UTC\<close>, and on \<open>CRON_TZ=Asia/Tokyo\<close>,
  which have the prefix and no space after it, \<open>Parse\<close> panics with a slice out of
  range, for every parser configuration and every time zone database.
\<close>

theorem Parse_panics_without_space:
  "Parse e p ''TZ=UTC'' = Panics SliceBoundsOutOfRange
   \<and> Parse e p ''CRON_TZ=Asia/Tokyo'' = Panics SliceBoundsOutOfRange"
  by (simp add: Parse_prefix_without_space HasPrefix_def)

section \<open>Properties of the interval schedule\<close>

lemma sint_time_Second: "sint time_Second = 1000000000"
  by (simp add: time_Second_def)

lemma sint_of_int_64:
  "- (2 ^ 63) \<le> k \<Longrightarrow> k < 2 ^ 63 \<Longrightarrow> sint (word_of_int k :: int64) = k"
  by (simp add: sint_sbintrunc' signed_take_bit_int_eq_self)

lemma sint_range_64: "- (2 ^ 63) \<le> sint (w :: int64) \<and> sint w < 2 ^ 63"
  using sint_ge [of w] sint_lt [of w] by simp

lemma sint_Delay_Every:
  "sint (Delay (Every d)) =
     (if sint d < 1000000000 then 1000000000 else sint d - sint d mod 1000000000)"
proof (cases "sint d < 1000000000")
  case True
  have "rem64 time_Second time_Second = 0"
    by (simp add: rem64_def sint_time_Second)
  with True show ?thesis by (simp add: Every_def sint_time_Second)
next
  case False
  then have pos: "0 < sint d" by simp
  then have sm: "sint d smod 1000000000 = sint d mod 1000000000"
    by (simp add: smod_int_alt_def sgn_1_pos abs_of_pos)
  have m: "0 \<le> sint d mod 1000000000" "sint d mod 1000000000 < 1000000000" by simp_all
  have "d - rem64 d time_Second = word_of_int (sint d - sint d mod 1000000000)"
    by (simp add: rem64_def sint_time_Second sm)
  moreover have "sint (word_of_int (sint d - sint d mod 1000000000) :: int64)
      = sint d - sint d mod 1000000000"
    using m False sint_range_64 [of d] by (intro sint_of_int_64) auto
  ultimately show ?thesis using False by (simp add: Every_def sint_time_Second)
qed

lemma ns_Next:
  assumes "1000000000 \<le> sint (Delay s)"
  shows "ns (ConstantDelaySchedule_Next s t) = ns t + sint (Delay s) - ns t mod 1000000000"
proof -
  have m: "0 \<le> ns t mod 1000000000" "ns t mod 1000000000 < 1000000000" by simp_all
  have "Delay s - word_of_int (ns t mod 1000000000) =
      word_of_int (sint (Delay s) - ns t mod 1000000000)" by simp
  moreover have "sint (word_of_int (sint (Delay s) - ns t mod 1000000000) :: int64)
      = sint (Delay s) - ns t mod 1000000000"
    using m assms sint_range_64 [of "Delay s"] by (intro sint_of_int_64) auto
  ultimately show ?thesis
    by (simp add: ConstantDelaySchedule_Next_def Add_def Nanosecond_def time_Nanosecond_def)
qed


lemma Delay_Every_bounds:
  "1000000000 \<le> sint (Delay (Every d)) \<and> sint (Delay (Every d)) mod 1000000000 = 0"
proof (cases "sint d < 1000000000")
  case True
  then show ?thesis by (simp add: sint_Delay_Every)
next
  case False
  have "sint d mod 1000000000 < 1000000000" by simp
  moreover have "(sint d - sint d mod 1000000000) mod 1000000000 = 0"
    by (simp add: minus_mod_eq_mult_div)
  moreover have "1000000000 \<le> sint d - sint d mod 1000000000"
  proof -
    from False have "1 \<le> sint d div 1000000000"
      by (simp add: pos_imp_zdiv_pos_iff)
    then have "1000000000 * 1 \<le> 1000000000 * (sint d div 1000000000)"
      by (intro mult_left_mono) simp_all
    then show ?thesis by (simp add: minus_mod_eq_mult_div)
  qed
  ultimately show ?thesis using False by (simp add: sint_Delay_Every)
qed

lemma ns_Next_Every:
  "ns (ConstantDelaySchedule_Next (Every d) t)
     = ns t + sint (Delay (Every d)) - ns t mod 1000000000"
  using Delay_Every_bounds [of d] by (intro ns_Next) simp

lemma Next_Every_whole_second:
  "ns (ConstantDelaySchedule_Next (Every d) t) mod 1000000000 = 0"
proof -
  from Delay_Every_bounds [of d] obtain k where k: "sint (Delay (Every d)) = 1000000000 * k"
    by (auto simp: mod_eq_0_iff_dvd dvd_def)
  have "ns t - ns t mod 1000000000 = 1000000000 * (ns t div 1000000000)"
    by (simp add: minus_mod_eq_mult_div)
  then have "ns t + sint (Delay (Every d)) - ns t mod 1000000000
      = 1000000000 * (ns t div 1000000000 + k)"
    by (simp add: k algebra_simps)
  then show ?thesis by (simp add: ns_Next_Every)
qed

lemma Every_30s_sequence:
  "ns ((ConstantDelaySchedule_Next (Every 30000000000) ^^ Suc n) t)
     = ns t - ns t mod 1000000000 + (int n + 1) * 30000000000"
proof (induction n)
  case 0
  have "sint (Delay (Every 30000000000)) = 30000000000"
    by (simp add: sint_Delay_Every)
  then show ?case by (simp add: ns_Next_Every)
next
  case (Suc n)
  let ?u = "(ConstantDelaySchedule_Next (Every 30000000000) ^^ Suc n) t"
  have d: "sint (Delay (Every 30000000000)) = 30000000000"
    by (simp add: sint_Delay_Every)
  have "ns ?u mod 1000000000 = 0"
    using Next_Every_whole_second [of 30000000000 "(ConstantDelaySchedule_Next (Every 30000000000) ^^ n) t"]
    by simp
  then have "ns (ConstantDelaySchedule_Next (Every 30000000000) ?u) = ns ?u + 30000000000"
    by (simp add: ns_Next_Every d)
  with Suc show ?case by (simp add: algebra_simps)
qed

text \<open>
  C6. \<open>Every\<close> stores a delay of one second for every duration below one second, and
  the duration without its part below a second otherwise, so the delay is a whole
  number of seconds and at least one. For every instant \<open>t\<close>, \<open>Next\<close> of such a
  schedule is \<open>t\<close> plus the delay minus the nanoseconds of \<open>t\<close> within its second, an
  instant on a whole second. Starting from any \<open>t\<close>, the activations of \<open>Every(30s)\<close>
  are the start of the second of \<open>t\<close> plus 30, 60, 90, ... seconds.
\<close>

theorem Every_Next_whole_seconds:
  "sint (Delay (Every d)) =
     (if sint d < 1000000000 then 1000000000 else sint d - sint d mod 1000000000)
   \<and> 1000000000 \<le> sint (Delay (Every d)) \<and> sint (Delay (Every d)) mod 1000000000 = 0
   \<and> ns (ConstantDelaySchedule_Next (Every d) t)
       = ns t + sint (Delay (Every d)) - ns t mod 1000000000
   \<and> ns (ConstantDelaySchedule_Next (Every d) t) mod 1000000000 = 0
   \<and> ns ((ConstantDelaySchedule_Next (Every 30000000000) ^^ Suc n) t)
       = ns t - ns t mod 1000000000 + (int n + 1) * 30000000000"
  using sint_Delay_Every [of d] Delay_Every_bounds [of d] ns_Next_Every [of d t]
    Next_Every_whole_second [of d t] Every_30s_sequence [of n t]
  by (intro conjI) simp_all

section \<open>Properties of the field-based schedule\<close>

subsection \<open>The day of the month and the day of the week\<close>

lemma yday_range: "0 \<le> snd (year_yday d) \<and> snd (year_yday d) \<le> 365"
proof -
  define d1 where "d1 = d mod 146097"
  define n100 where "n100 = min 3 (d1 div 36524)"
  define d2 where "d2 = d1 - 36524 * n100"
  define d3 where "d3 = d2 mod 1461"
  define n1 where "n1 = min 3 (d3 div 365)"
  have d3: "0 \<le> d3" "d3 < 1461" by (simp_all add: d3_def)
  have r: "0 \<le> d3 - 365 * n1 \<and> d3 - 365 * n1 \<le> 365"
  proof (cases "d3 div 365 \<le> 3")
    case True
    then have "n1 = d3 div 365" by (simp add: n1_def)
    then have "d3 - 365 * n1 = d3 mod 365" by (simp add: minus_mult_div_eq_mod)
    moreover have "0 \<le> d3 mod 365" "d3 mod 365 < 365" by simp_all
    ultimately show ?thesis by simp
  next
    case False
    then have n: "n1 = 3" by (simp add: n1_def)
    from False have "4 \<le> d3 div 365" by simp
    then have "4 * 365 \<le> d3" by linarith
    with d3 n show ?thesis by simp
  qed
  show ?thesis
    unfolding year_yday_def Let_def snd_conv
    using r by (simp only: d1_def n100_def d2_def d3_def n1_def)
qed

lemma month_day_range:
  assumes "0 \<le> y" "y \<le> 365"
  shows "1 \<le> snd (month_day leap months12 y) \<and> snd (month_day leap months12 y) \<le> 31"
  using assms by (cases leap) (simp_all add: month_length_def months12_def)

lemma Day_range: "1 \<le> Day t \<and> Day t \<le> 31"
  using yday_range [of "abs_sec t div 86400"]
    month_day_range [of "snd (year_yday (abs_sec t div 86400))"]
  by (simp add: Day_def date_of_day_def split_beta Let_def)

lemma Weekday_range: "0 \<le> Weekday t \<and> Weekday t \<le> 6"
  by (simp add: Weekday_def)

lemma one_shift_and:
  assumes "k < 64"
  shows "push_bit k (1 :: uint64) AND w > 0 \<longleftrightarrow> bit w k"
proof -
  have b: "bit (push_bit k (1 :: uint64) AND w) n \<longleftrightarrow> bit w k \<and> n = k" for n
    using assms by (auto simp only: bit_and_iff bit_one_shift)
  have "push_bit k (1 :: uint64) AND w \<noteq> 0 \<longleftrightarrow> bit w k"
  proof
    assume nz: "push_bit k (1 :: uint64) AND w \<noteq> 0"
    show "bit w k"
    proof (rule ccontr)
      assume "\<not> bit w k"
      then have "push_bit k (1 :: uint64) AND w = 0"
        by (intro bit_eqI) (simp only: b, simp)
      with nz show False by simp
    qed
  next
    assume "bit w k"
    then have "bit (push_bit k (1 :: uint64) AND w) k" by (simp only: b)
    then show "push_bit k (1 :: uint64) AND w \<noteq> 0" by auto
  qed
  then show ?thesis by (simp only: word_greater_zero_iff)
qed

lemma field_bit_and:
  assumes "0 \<le> n" "n < 64"
  shows "field_bit n AND w > 0 \<longleftrightarrow> bit w (nat n)"
proof -
  from assms have u: "unat (word_of_int n :: uint) = nat n"
    by (simp add: unat_eq_nat_uint uint_word_of_int)
  from assms have "nat n < 64" by simp
  from one_shift_and [OF this] show ?thesis by (simp only: field_bit_def u)
qed

lemma and_starBit: "w AND starBit > 0 \<longleftrightarrow> bit w 63"
proof -
  have "push_bit 63 (1 :: uint64) AND w > 0 \<longleftrightarrow> bit w 63"
    by (rule one_shift_and) simp
  then show ?thesis by (simp only: starBit_def and.commute)
qed

text \<open>
  C2. For every schedule and every time: when the wildcard mark, bit 63, is set in
  \<open>Dom\<close> or in \<open>Dow\<close>, the day of the time matches exactly when the bit of its day of
  the month is set in \<open>Dom\<close> and the bit of its day of the week is set in \<open>Dow\<close>; when
  the mark is set in neither, the day matches exactly when one of the two bits is set.
\<close>

theorem dayMatches_and_or:
  "dayMatches s t \<longleftrightarrow>
     (if bit (Dom s) 63 \<or> bit (Dow s) 63
      then bit (Dom s) (nat (Day t)) \<and> bit (Dow s) (nat (Weekday t))
      else bit (Dom s) (nat (Day t)) \<or> bit (Dow s) (nat (Weekday t)))"
proof -
  have d: "field_bit (Day t) AND Dom s > 0 \<longleftrightarrow> bit (Dom s) (nat (Day t))"
    using Day_range [of t] by (intro field_bit_and) auto
  have w: "field_bit (Weekday t) AND Dow s > 0 \<longleftrightarrow> bit (Dow s) (nat (Weekday t))"
    using Weekday_range [of t] by (intro field_bit_and) auto
  show ?thesis
    unfolding dayMatches_def Let_def d w and_starBit by simp
qed


section \<open>Properties of the engine\<close>

subsection \<open>Entry identities\<close>

lemma Cron_Schedule_nextID:
  "snd (Cron_Schedule c s j) = nextID c + 1 \<and> nextID (fst (Cron_Schedule c s j)) = nextID c + 1"
  by (simp add: Cron_Schedule_def Let_def)

lemma Cron_Schedule_IDs:
  "ID ` (set (entries (fst (Cron_Schedule c s j))) \<union> set (add (fst (Cron_Schedule c s j))))
     = insert (nextID c + 1) (ID ` (set (entries c) \<union> set (add c)))"
  by (auto simp: Cron_Schedule_def Let_def)

lemma upt_0_Suc: "[0 ..< Suc n] = 0 # map Suc [0 ..< n]"
  by (simp only: map_Suc_upt upt_conv_Cons [OF zero_less_Suc])

lemma Schedule_all_ids:
  "snd (Schedule_all c xs) = map (\<lambda>k. nextID c + 1 + of_nat k) [0 ..< length xs]"
proof (induction xs arbitrary: c)
  case Nil
  then show ?case by simp
next
  case (Cons x xs)
  obtain r s j where x: "x = (r, s, j)" by (cases x)
  let ?c1 = "fst (Cron_Schedule (c\<lparr>running := r\<rparr>) s j)"
  have n1: "nextID ?c1 = nextID c + 1" and i: "snd (Cron_Schedule (c\<lparr>running := r\<rparr>) s j) = nextID c + 1"
    using Cron_Schedule_nextID [of "c\<lparr>running := r\<rparr>" s j] by simp_all
  have "snd (Schedule_all c (x # xs)) = (nextID c + 1) # snd (Schedule_all ?c1 xs)"
    using i by (simp add: x split_beta Let_def)
  also have "snd (Schedule_all ?c1 xs) = map (\<lambda>k. nextID ?c1 + 1 + of_nat k) [0 ..< length xs]"
    by (rule Cons.IH)
  also have "(nextID c + 1) # map (\<lambda>k. nextID ?c1 + 1 + of_nat k) [0 ..< length xs]
      = map (\<lambda>k. nextID c + 1 + of_nat k) (0 # map Suc [0 ..< length xs])"
    unfolding n1 by (simp add: o_def add.assoc)
  also have "0 # map Suc [0 ..< length xs] = [0 ..< length (x # xs)]"
    by (simp only: upt_0_Suc length_Cons)
  finally show ?case .
qed

lemma Schedule_all_IDs:
  "ID ` (set (entries (fst (Schedule_all c xs))) \<union> set (add (fst (Schedule_all c xs))))
     = ID ` (set (entries c) \<union> set (add c)) \<union> set (snd (Schedule_all c xs))"
proof (induction xs arbitrary: c)
  case Nil
  then show ?case by simp
next
  case (Cons x xs)
  obtain r s j where x: "x = (r, s, j)" by (cases x)
  let ?c0 = "c\<lparr>running := r\<rparr>"
  let ?c1 = "fst (Cron_Schedule ?c0 s j)"
  have i: "snd (Cron_Schedule ?c0 s j) = nextID c + 1"
    using Cron_Schedule_nextID [of ?c0 s j] by simp
  have e: "fst (Schedule_all c (x # xs)) = fst (Schedule_all ?c1 xs)"
    "snd (Schedule_all c (x # xs)) = (nextID c + 1) # snd (Schedule_all ?c1 xs)"
    using i by (simp_all add: x split_beta Let_def)
  have "ID ` (set (entries ?c1) \<union> set (add ?c1))
      = insert (nextID c + 1) (ID ` (set (entries c) \<union> set (add c)))"
    using Cron_Schedule_IDs [of ?c0 s j] by simp
  with Cons.IH [of ?c1] show ?case unfolding e by auto
qed

lemma sint_of_nat_64:
  assumes "k < 2 ^ 63"
  shows "sint (of_nat k :: int64) = int k"
proof -
  from assms have "int k < 2 ^ 63" by (metis of_nat_less_numeral_power_cancel_iff)
  then have "signed_take_bit 63 (int k) = int k"
    by (intro signed_take_bit_int_eq_self) simp_all
  then show ?thesis by (simp add: signed_of_nat)
qed

text \<open>
  C8. On an engine whose counter is 0, as \<open>New\<close> makes it, and for fewer than \<open>2^63\<close>
  registrations (the counter is a 64-bit \<open>int\<close>), whether the engine runs or not at
  each of them: the identities returned are 1, 2, 3, ... in this order, so they are
  strictly increasing, all different and never 0; they are the identities of the
  entries that the registrations add to the engine; and \<open>Valid\<close> is true of an entry
  exactly when its identity is not 0.
\<close>

theorem EntryID_sequence:
  assumes "nextID c = 0" "length xs < 2 ^ 63"
  shows "map sint (snd (Schedule_all c xs)) = map int [1 ..< length xs + 1]
     \<and> sorted_wrt (\<lambda>a b. sint a < sint b) (snd (Schedule_all c xs))
     \<and> distinct (snd (Schedule_all c xs))
     \<and> 0 \<notin> set (snd (Schedule_all c xs))
     \<and> ID ` (set (entries (fst (Schedule_all c xs))) \<union> set (add (fst (Schedule_all c xs))))
         = ID ` (set (entries c) \<union> set (add c)) \<union> set (snd (Schedule_all c xs))
     \<and> (Valid e \<longleftrightarrow> ID e \<noteq> 0)"
proof -
  let ?ids = "snd (Schedule_all c xs)"
  have ids: "?ids = map (\<lambda>k. 1 + of_nat k) [0 ..< length xs]"
    using Schedule_all_ids [of c xs] assms(1) by simp
  have s: "sint (1 + of_nat k :: int64) = int (Suc k)" if "k < length xs" for k
  proof -
    from that assms(2) have "Suc k < 2 ^ 63" by simp
    from sint_of_nat_64 [OF this] show ?thesis by (simp add: add.commute)
  qed
  have "map sint ?ids = map (\<lambda>k. int (Suc k)) [0 ..< length xs]"
    unfolding ids map_map o_def by (rule map_cong [OF refl]) (simp only: s atLeastLessThan_iff set_upt)
  also have "\<dots> = map int (map Suc [0 ..< length xs])"
    by (simp only: map_map o_def)
  also have "map Suc [0 ..< length xs] = [1 ..< length xs + 1]"
    by (simp add: map_Suc_upt)
  finally have 1: "map sint ?ids = map int [1 ..< length xs + 1]" .
  have "sorted_wrt (\<lambda>a b. int a < int b) [1 ..< length xs + 1]"
    by (simp only: of_nat_less_iff sorted_wrt_upt)
  then have sw: "sorted_wrt (<) (map sint ?ids)" by (simp only: 1 sorted_wrt_map)
  then have 2: "sorted_wrt (\<lambda>a b. sint a < sint b) ?ids" by (simp only: sorted_wrt_map)
  have "distinct (map int [1 ..< length xs + 1])"
    by (simp only: distinct_map distinct_upt inj_on_of_nat simp_thms)
  then have "distinct (map sint ?ids)" by (simp only: 1)
  then have 3: "distinct ?ids" by (simp only: distinct_map)
  have 4: "0 \<notin> set ?ids"
  proof
    assume "0 \<in> set ?ids"
    then have "sint (0 :: int64) \<in> sint ` set ?ids" by (rule imageI)
    then have "0 \<in> set (map int [1 ..< length xs + 1])" by (simp only: 1 [symmetric] set_map sint_0)
    then show False by auto
  qed
  have 6: "Valid e \<longleftrightarrow> ID e \<noteq> 0" by (simp add: Valid_def)
  from 1 2 3 4 Schedule_all_IDs [of c xs] 6 show ?thesis by (intro conjI)
qed


theorem EntryID_sequence_witness:
  "nextID (New :: (unit, string) Cron) = 0
   \<and> map sint (snd (Schedule_all (New :: (unit, string) Cron)
        [(False, (), ''a''), (False, (), ''b''), (True, (), ''c'')])) = [1, 2, 3]"
proof -
  let ?xs = "[(False, (), ''a''), (False, (), ''b''), (True, (), ''c'')]"
  have n: "nextID (New :: (unit, string) Cron) = 0" by (simp add: New_def)
  have l: "length ?xs < 2 ^ 63" by simp
  have u: "map int [1 ..< length ?xs + 1] = [1, 2, 3]" by (simp add: upt_rec)
  from EntryID_sequence [OF n l, THEN conjunct1]
  have "map sint (snd (Schedule_all (New :: (unit, string) Cron) ?xs)) = [1, 2, 3]"
    by (simp only: u)
  with n show ?thesis by (rule conjI)
qed

subsection \<open>The order of the entries and the dispatch\<close>

lemma byTime_Less_entry_less: "byTime_Less s i j = entry_less (s ! i) (s ! j)"
  by (simp add: byTime_Less_def entry_less_def)

lemma sorted_byTime_wrt: "sorted_byTime es \<longleftrightarrow> sorted_wrt (\<lambda>a b. \<not> entry_less b a) es"
  unfolding sorted_byTime_def byTime_Less_entry_less sorted_wrt_iff_nth_less
  by auto

lemma not_due_later:
  assumes "\<not> due now a" "\<not> entry_less b a"
  shows "\<not> due now b"
  using assms by (auto simp: due_def entry_less_def Before_def After_def)

lemma run_wake_takeWhile:
  "run_wake next now es =
     (map WrappedJob (takeWhile (due now) es),
      map (\<lambda>e. e\<lparr>Prev := Next e, Next := next (Schedule e) now\<rparr>) (takeWhile (due now) es)
        @ dropWhile (due now) es)"
  by (induction es) (auto simp: due_def)

lemma sorted_filter_due:
  "sorted_wrt (\<lambda>a b. \<not> entry_less b a) es \<Longrightarrow> filter (due now) es = takeWhile (due now) es"
proof (induction es)
  case Nil
  then show ?case by simp
next
  case (Cons e es)
  show ?case
  proof (cases "due now e")
    case True
    with Cons show ?thesis by simp
  next
    case False
    from Cons.prems have "\<forall>x \<in> set es. \<not> entry_less x e" by simp
    with False have "\<forall>x \<in> set es. \<not> due now x" using not_due_later by blast
    then have "filter (due now) es = []" by (simp add: filter_empty_conv)
    with False show ?thesis by simp
  qed
qed

lemma sorted_due_ascending:
  assumes "sorted_wrt (\<lambda>a b. \<not> entry_less b a) es"
  shows "sorted_wrt (\<lambda>a b. ns (Next a) \<le> ns (Next b)) (takeWhile (due now) es)"
proof -
  have s: "sorted_wrt (\<lambda>a b. \<not> entry_less b a) (takeWhile (due now) es)"
    using assms by (rule sorted_wrt_takeWhile)
  have "\<And>a b. a \<in> set (takeWhile (due now) es) \<Longrightarrow> b \<in> set (takeWhile (due now) es) \<Longrightarrow>
      \<not> entry_less b a \<Longrightarrow> ns (Next a) \<le> ns (Next b)"
  proof -
    fix a b :: "('a, 'b) Entry"
    assume "a \<in> set (takeWhile (due now) es)" "b \<in> set (takeWhile (due now) es)"
      and nl: "\<not> entry_less b a"
    then have "due now a" "due now b" by (auto dest: set_takeWhileD)
    with nl show "ns (Next a) \<le> ns (Next b)"
      by (simp add: due_def entry_less_def Before_def)
  qed
  then show ?thesis by (rule sorted_wrt_mono_rel [OF _ s])
qed

lemma sorted_byTime_zero_last:
  "sorted_byTime es \<longleftrightarrow>
     (\<forall>j < length es. \<forall>i < j.
        (IsZero (Next (es ! i)) \<longrightarrow> IsZero (Next (es ! j)))
        \<and> (\<not> IsZero (Next (es ! j)) \<longrightarrow> ns (Next (es ! i)) \<le> ns (Next (es ! j))))"
proof -
  have "\<not> byTime_Less es j i \<longleftrightarrow>
      (IsZero (Next (es ! i)) \<longrightarrow> IsZero (Next (es ! j)))
        \<and> (\<not> IsZero (Next (es ! j)) \<longrightarrow> ns (Next (es ! i)) \<le> ns (Next (es ! j)))" for i j
    by (simp add: byTime_Less_def Before_def not_less)
  then show ?thesis unfolding sorted_byTime_def by simp
qed

text \<open>
  C9. \<open>byTime.Less\<close> is false when the \<open>Next\<close> of the first entry is zero, true when
  only that of the second is zero, and \<open>Before\<close> otherwise; so a slice sorted by it has
  its entries with a zero \<open>Next\<close> last and the others before them in ascending order
  of \<open>Next\<close>. The dispatch of a wake-up starts the jobs of the entries up to the first
  one whose \<open>Next\<close> is after \<open>now\<close> or zero, and moves their \<open>Prev\<close> and \<open>Next\<close>; on
  a sorted slice these are all the entries that are due, in ascending order of \<open>Next\<close>.
\<close>

theorem byTime_order_and_dispatch:
  "(byTime_Less s i j \<longleftrightarrow>
      \<not> IsZero (Next (s ! i)) \<and> (IsZero (Next (s ! j)) \<or> Before (Next (s ! i)) (Next (s ! j))))
   \<and> (sorted_byTime es \<longleftrightarrow>
       (\<forall>j < length es. \<forall>i < j.
          (IsZero (Next (es ! i)) \<longrightarrow> IsZero (Next (es ! j)))
          \<and> (\<not> IsZero (Next (es ! j)) \<longrightarrow> ns (Next (es ! i)) \<le> ns (Next (es ! j)))))
   \<and> run_wake next now es =
       (map WrappedJob (takeWhile (due now) es),
        map (\<lambda>e. e\<lparr>Prev := Next e, Next := next (Schedule e) now\<rparr>) (takeWhile (due now) es)
          @ dropWhile (due now) es)
   \<and> (sorted_byTime es \<longrightarrow>
        fst (run_wake next now es) = map WrappedJob (filter (due now) es)
        \<and> sorted_wrt (\<lambda>a b. ns (Next a) \<le> ns (Next b)) (filter (due now) es))"
proof (intro conjI impI)
  show "byTime_Less s i j \<longleftrightarrow>
      \<not> IsZero (Next (s ! i)) \<and> (IsZero (Next (s ! j)) \<or> Before (Next (s ! i)) (Next (s ! j)))"
    by (simp add: byTime_Less_def)
  show "sorted_byTime es \<longleftrightarrow>
       (\<forall>j < length es. \<forall>i < j.
          (IsZero (Next (es ! i)) \<longrightarrow> IsZero (Next (es ! j)))
          \<and> (\<not> IsZero (Next (es ! j)) \<longrightarrow> ns (Next (es ! i)) \<le> ns (Next (es ! j))))"
    by (rule sorted_byTime_zero_last)
  show "run_wake next now es =
       (map WrappedJob (takeWhile (due now) es),
        map (\<lambda>e. e\<lparr>Prev := Next e, Next := next (Schedule e) now\<rparr>) (takeWhile (due now) es)
          @ dropWhile (due now) es)"
    by (rule run_wake_takeWhile)
next
  assume "sorted_byTime es"
  then have s: "sorted_wrt (\<lambda>a b. \<not> entry_less b a) es" by (simp only: sorted_byTime_wrt)
  from sorted_filter_due [OF s, of now]
  show "fst (run_wake next now es) = map WrappedJob (filter (due now) es)"
    by (simp add: run_wake_takeWhile)
  from sorted_filter_due [OF s, of now] sorted_due_ascending [OF s, of now]
  show "sorted_wrt (\<lambda>a b. ns (Next a) \<le> ns (Next b)) (filter (due now) es)"
    by simp
qed

theorem byTime_order_and_dispatch_witness:
  "sorted_byTime
     [\<lparr>ID = 2, Schedule = (), Next = \<lparr>ns = 5, loc = UTC\<rparr>, Prev = zero_Time,
        WrappedJob = ''a'', Job = ''a''\<rparr>,
      \<lparr>ID = 1, Schedule = (), Next = \<lparr>ns = 10, loc = UTC\<rparr>, Prev = zero_Time,
        WrappedJob = ''b'', Job = ''b''\<rparr>,
      \<lparr>ID = 3, Schedule = (), Next = zero_Time, Prev = zero_Time,
        WrappedJob = ''c'', Job = ''c''\<rparr>]
   \<and> fst (run_wake (\<lambda>s t. zero_Time) \<lparr>ns = 7, loc = UTC\<rparr>
     [\<lparr>ID = 2, Schedule = (), Next = \<lparr>ns = 5, loc = UTC\<rparr>, Prev = zero_Time,
        WrappedJob = ''a'', Job = ''a''\<rparr>,
      \<lparr>ID = 1, Schedule = (), Next = \<lparr>ns = 10, loc = UTC\<rparr>, Prev = zero_Time,
        WrappedJob = ''b'', Job = ''b''\<rparr>,
      \<lparr>ID = 3, Schedule = (), Next = zero_Time, Prev = zero_Time,
        WrappedJob = ''c'', Job = ''c''\<rparr>]) = [''a'']"
proof -
  let ?es = "[\<lparr>ID = 2, Schedule = (), Next = \<lparr>ns = 5, loc = UTC\<rparr>, Prev = zero_Time,
        WrappedJob = ''a'', Job = ''a''\<rparr>,
      \<lparr>ID = 1, Schedule = (), Next = \<lparr>ns = 10, loc = UTC\<rparr>, Prev = zero_Time,
        WrappedJob = ''b'', Job = ''b''\<rparr>,
      \<lparr>ID = 3, Schedule = (), Next = zero_Time, Prev = zero_Time,
        WrappedJob = ''c'', Job = ''c''\<rparr>] :: (unit, string) Entry list"
  have s: "sorted_byTime ?es"
    by (simp add: sorted_byTime_def byTime_Less_def IsZero_def Before_def zero_Time_def
        less_Suc_eq all_conj_distrib nth_Cons')
  have f: "map WrappedJob (filter (due \<lparr>ns = 7, loc = UTC\<rparr>) ?es) = [''a'']"
    by (simp add: due_def IsZero_def After_def zero_Time_def)
  from byTime_order_and_dispatch [of ?es 0 0 ?es "\<lambda>s t. zero_Time" "\<lparr>ns = 7, loc = UTC\<rparr>",
      THEN conjunct2, THEN conjunct2, THEN conjunct2, THEN mp, OF s, THEN conjunct1]
  have "fst (run_wake (\<lambda>s t. zero_Time) \<lparr>ns = 7, loc = UTC\<rparr> ?es) = [''a'']"
    by (simp only: f)
  with s show ?thesis by (rule conjI)
qed


section \<open>A change of offset within the hour\<close>

text \<open>
  C1. The claim is that \<open>Next\<close> returns either an instant that satisfies all six bit sets
  or the zero time. The specification \<open>TZ=Australia/Lord_Howe 45 1 * * *\<close> parses to the
  schedule \<open>daily_0145\<close>, whose \<open>Hour\<close> has the bit of hour 1 only. At 01:50:00 on
  October 6, 2019, \<open>Next\<close> returns 02:45:00 of the same day, an instant in hour 2: the
  loop of the minutes steps from 01:59 to 02:30, where the minute is not 0, so it does
  not go back to \<open>WRAP\<close>, and the hour is not looked at again.
\<close>

theorem Next_returns_unmatched_hour:
  "ParseStandard tz_env ''TZ=Australia/Lord_Howe 45 1 * * *'' = Returns (Inr (Spec daily_0145))
   \<and> SpecSchedule_Next daily_0145 (Date 2019 10 6 1 50 0 0 Lord_Howe)
       = Some (Date 2019 10 6 2 45 0 0 Lord_Howe)
   \<and> \<not> IsZero (Date 2019 10 6 2 45 0 0 Lord_Howe)
   \<and> Hour_of (Date 2019 10 6 2 45 0 0 Lord_Howe) = 2
   \<and> field_bit (Hour_of (Date 2019 10 6 2 45 0 0 Lord_Howe)) AND Hour daily_0145 = 0"
  by code_simp

end
